theory Spec2Isabelle
  imports Complex_Main "HOL-Library.Log_Nat"
begin

section \<open>Python values shared by the trackers, the painter and the main loop\<close>

text \<open>
  Python raises where HOL would return an unspecified value, so every indexing, every
  conversion and every division of the source returns a sum: \<open>Inl\<close> is the exception that
  propagates, \<open>Inr\<close> the value.
\<close>

datatype py_error = IndexError | ValueError | OverflowError

text \<open>
  \<open>xs[i]\<close> for the non-negative literal indices the source uses (0, 1, 2, 3, 4, 6, 8, ...).
\<close>

definition getitem :: "'a list \<Rightarrow> nat \<Rightarrow> py_error + 'a" where
  "getitem xs i = (if i < length xs then Inr (xs ! i) else Inl IndexError)"

type_synonym point = "int \<times> int"

type_synonym color = "int \<times> int \<times> int"

subsection \<open>Floats\<close>

text \<open>
  A Python float is an IEEE-754 binary64 number. A finite one is written here as a pair
  \<open>(m, e)\<close> of integers, standing for \<open>m * 2 ^ e\<close>. An operation computes the exact result
  and rounds it to 53 significant bits, to nearest, ties to even: \<open>round_half_even n k\<close>
  is \<open>n / 2 ^ k\<close> rounded to an integer that way, and \<open>round_to_double m e\<close> drops the
  bits of \<open>m\<close> beyond 53. The pair need not be normalised: an operation reads only the
  value of its arguments. Subnormal numbers and infinities are not represented: the mouth
  test multiplies an integer by 0.3, and the smoothed pointer of a raw coordinate that is
  held constant from the start of the loop is zero or at least 0.4 in magnitude and never
  beyond the raw coordinate (a pointer resting at coordinate 0 for some 1400 frames after
  it was elsewhere would decay into the subnormal range, which is outside what is proved
  here).
\<close>

type_synonym py_float = "int \<times> int"

definition round_half_even :: "int \<Rightarrow> nat \<Rightarrow> int" where
  "round_half_even n k =
     (let q = n div 2 ^ k; r = n mod 2 ^ k
      in if 2 ^ k < 2 * r \<or> (2 * r = 2 ^ k \<and> odd q) then q + 1 else q)"

definition round_to_double :: "int \<Rightarrow> int \<Rightarrow> py_float" where
  "round_to_double m e =
     (let k = bitlen \<bar>m\<bar> - 53
      in if k \<le> 0 then (m, e)
         else (sgn m * round_half_even \<bar>m\<bar> (nat k), e + k))"

text \<open>
  The largest double is below \<open>2 ^ 1024\<close>; \<open>(m, e)\<close> with \<open>m\<close> of \<open>b\<close> bits is at least
  \<open>2 ^ (b + e - 1)\<close>.
\<close>

definition float_overflows :: "py_float \<Rightarrow> bool" where
  "float_overflows f = (1024 < bitlen \<bar>fst f\<bar> + snd f)"

text \<open>
  \<open>float(n)\<close>, the conversion Python applies to the integer operand of \<open>n * 0.3\<close>:
  correctly rounded, \<open>OverflowError\<close> when \<open>n\<close> is too large for a double.
\<close>

definition float_of_int :: "int \<Rightarrow> py_error + py_float" where
  "float_of_int n =
     (let f = round_to_double n 0
      in if float_overflows f then Inl OverflowError else Inr f)"

definition float_mul :: "py_float \<Rightarrow> py_float \<Rightarrow> py_float" where
  "float_mul a b = round_to_double (fst a * fst b) (snd a + snd b)"

text \<open>
  \<open>a + b\<close> and \<open>a - b\<close>: the exact sum over the smaller of the two exponents, rounded.
\<close>

definition float_add :: "py_float \<Rightarrow> py_float \<Rightarrow> py_float" where
  "float_add a b =
     (let e = min (snd a) (snd b)
      in round_to_double (fst a * 2 ^ nat (snd a - e) + fst b * 2 ^ nat (snd b - e)) e)"

definition float_sub :: "py_float \<Rightarrow> py_float \<Rightarrow> py_float" where
  "float_sub a b = float_add a (- fst b, snd b)"

text \<open>
  \<open>n / 2\<close> for an integer \<open>n\<close>: Python's true division rounds the exact quotient, here
  \<open>n * 2 ^ (-1)\<close>.
\<close>

definition int_truediv_2 :: "int \<Rightarrow> py_error + py_float" where
  "int_truediv_2 n =
     (let f = round_to_double n (- 1)
      in if float_overflows f then Inl OverflowError else Inr f)"

text \<open>\<open>int(f)\<close> truncates toward zero.\<close>

definition int_of_float :: "py_float \<Rightarrow> int" where
  "int_of_float f =
     (case f of (m, e) \<Rightarrow>
        if 0 \<le> e then m * 2 ^ nat e else sgn m * (\<bar>m\<bar> div 2 ^ nat (- e)))"

text \<open>\<open>n > f\<close> for an integer \<open>n\<close> and a float \<open>f\<close>: Python compares the exact values.\<close>

definition int_gt_float :: "int \<Rightarrow> py_float \<Rightarrow> bool" where
  "int_gt_float n f =
     (case f of (m, e) \<Rightarrow>
        if 0 \<le> e then m * 2 ^ nat e < n else m < n * 2 ^ nat (- e))"

text \<open>
  The literals: \<open>0.3\<close> is the double \<open>0x1.3333333333333p-2\<close>, \<open>0.8\<close> is
  \<open>0x1.999999999999ap-1\<close>, \<open>0.4\<close> is \<open>0x1.999999999999ap-2\<close>; \<open>float_1_0\<close> is what the
  integer 1 converts to.
\<close>

definition float_0_3 :: py_float where
  "float_0_3 = (5404319552844595, - 54)"

definition float_0_8 :: py_float where
  "float_0_8 = (7205759403792794, - 53)"

definition float_0_4 :: py_float where
  "float_0_4 = (7205759403792794, - 54)"

definition float_1_0 :: py_float where
  "float_1_0 = (1, 0)"

text \<open>
  The real number a float stands for, and the integer that \<open>round_to_double\<close> leaves of
  a mantissa with its dropped bits put back as zeros (\<open>round_to_double m e\<close> stands for
  \<open>rounded_int m * 2 ^ e\<close>). Neither is computed by the program: they state what its floats
  mean.
\<close>

definition float_val :: "py_float \<Rightarrow> real" where
  "float_val f = real_of_int (fst f) * 2 powr real_of_int (snd f)"

definition rounded_int :: "int \<Rightarrow> int" where
  "rounded_int m =
     (let k = nat (bitlen \<bar>m\<bar> - 53) in sgn m * round_half_even \<bar>m\<bar> k * 2 ^ k)"

subsection \<open>Strings and ranges\<close>

text \<open>\<open>str(n)\<close> of an integer.\<close>

fun str_nat :: "nat \<Rightarrow> string" where
  "str_nat n =
     (if n < 10 then [''0123456789'' ! n]
      else str_nat (n div 10) @ [''0123456789'' ! (n mod 10)])"

definition py_str :: "int \<Rightarrow> string" where
  "py_str n = (if n < 0 then CHR ''-'' # str_nat (nat (- n)) else str_nat (nat n))"

text \<open>
  \<open>int(s)\<close> of a string of decimal digits, which is what \<open>str(size)\<close> puts on the pen-size
  buttons; any other text is answered with \<open>ValueError\<close> (Python would also accept blanks
  around the digits, a sign and underscores, which no button text has).
\<close>

definition digit_value :: "char \<Rightarrow> nat option" where
  "digit_value c = map_of (zip ''0123456789'' [0, 1, 2, 3, 4, 5, 6, 7, 8, 9]) c"

fun digits_value :: "string \<Rightarrow> nat \<Rightarrow> nat option" where
  "digits_value [] acc = Some acc"
| "digits_value (c # cs) acc =
     (case digit_value c of
        None \<Rightarrow> None
      | Some d \<Rightarrow> digits_value cs (10 * acc + d))"

definition py_int :: "string \<Rightarrow> py_error + int" where
  "py_int s =
     (if s = [] then Inl ValueError
      else (case digits_value s 0 of
              None \<Rightarrow> Inl ValueError
            | Some n \<Rightarrow> Inr (int n)))"

text \<open>\<open>range(start, stop, step)\<close> for a positive step.\<close>

definition py_range :: "int \<Rightarrow> int \<Rightarrow> int \<Rightarrow> int list" where
  "py_range start stop step =
     map (\<lambda>i. start + step * int i) [0 ..< nat ((stop - start + step - 1) div step)]"

section \<open>hand\_tracker.py\<close>

text \<open>The enumeration \<open>HandLandmark\<close> and its \<open>.value\<close>.\<close>

datatype HandLandmark =
  WRIST | THUMB_TIP | INDEX_TIP | MIDDLE_TIP | RING_TIP | PINKY_TIP
  | THUMB_MCP | THUMB_PIP | THUMB_DIP | INDEX_MCP | INDEX_PIP | INDEX_DIP

fun landmark_value :: "HandLandmark \<Rightarrow> nat" where
  "landmark_value WRIST = 0"
| "landmark_value THUMB_TIP = 4"
| "landmark_value INDEX_TIP = 8"
| "landmark_value MIDDLE_TIP = 12"
| "landmark_value RING_TIP = 16"
| "landmark_value PINKY_TIP = 20"
| "landmark_value THUMB_MCP = 1"
| "landmark_value THUMB_PIP = 2"
| "landmark_value THUMB_DIP = 3"
| "landmark_value INDEX_MCP = 5"
| "landmark_value INDEX_PIP = 6"
| "landmark_value INDEX_DIP = 7"

text \<open>
  \<open>get_hand_landmarks\<close> turns the detector's normalised output into a list of pixel
  points (empty when no hand is detected). The detector is external; the two functions
  below take that list, the value of \<open>landmarks\<close> in the source, as their argument.
\<close>

definition fingertip_landmarks :: "nat list" where
  "fingertip_landmarks =
     [landmark_value INDEX_TIP, landmark_value MIDDLE_TIP,
      landmark_value RING_TIP, landmark_value PINKY_TIP]"

text \<open>
  The loop \<open>for tip, pip in zip(fingertip_landmarks, [6, 10, 14, 18])\<close>, appending to
  \<open>fingers_up\<close>.
\<close>

fun other_fingers :: "point list \<Rightarrow> (nat \<times> nat) list \<Rightarrow> bool list \<Rightarrow> py_error + bool list" where
  "other_fingers landmarks [] fingers_up = Inr fingers_up"
| "other_fingers landmarks ((tip, pip) # rest) fingers_up =
     (case getitem landmarks tip of
        Inl e \<Rightarrow> Inl e
      | Inr t \<Rightarrow>
          (case getitem landmarks pip of
             Inl e \<Rightarrow> Inl e
           | Inr p \<Rightarrow>
               other_fingers landmarks rest
                 (fingers_up @ [if snd t < snd p then True else False])))"

definition detect_gesture :: "point list \<Rightarrow> py_error + bool list" where
  "detect_gesture landmarks =
     (if length landmarks < 21 then Inr []
      else
        (case getitem landmarks (landmark_value THUMB_TIP) of
           Inl e \<Rightarrow> Inl e
         | Inr tip \<Rightarrow>
             (case getitem landmarks (landmark_value THUMB_MCP) of
                Inl e \<Rightarrow> Inl e
              | Inr mcp \<Rightarrow>
                  other_fingers landmarks (zip fingertip_landmarks [6, 10, 14, 18])
                    [if fst tip < fst mcp then True else False])))"

text \<open>
  \<open>get_pointing_finger\<close>: the guard is \<open>len(landmarks) >= 8\<close>, the read is
  \<open>landmarks[HandLandmark.INDEX_TIP.value]\<close>, that is index 8. \<open>Inr None\<close> is the
  source's \<open>return None\<close>.
\<close>

definition get_pointing_finger :: "point list \<Rightarrow> py_error + point option" where
  "get_pointing_finger landmarks =
     (if 8 \<le> length landmarks then
        (case getitem landmarks (landmark_value INDEX_TIP) of
           Inl e \<Rightarrow> Inl e
         | Inr p \<Rightarrow> Inr (Some p))
      else Inr None)"

section \<open>mouth\_tracker.py\<close>

text \<open>
  \<open>detect_mouth\<close> returns the pixel points of the face-mesh landmarks 308, 78, 0 and 17
  (left corner, right corner, top centre, bottom centre), or the empty list when no face
  is detected. \<open>detect_mouth_open\<close> is modelled on that list, the value of
  \<open>mouth_landmarks\<close> in the source.
\<close>

definition detect_mouth_open :: "point list \<Rightarrow> py_error + bool" where
  "detect_mouth_open mouth_landmarks =
     (if 4 \<le> length mouth_landmarks then
        (case getitem mouth_landmarks 2 of Inl e \<Rightarrow> Inl e | Inr p_top \<Rightarrow>
        (case getitem mouth_landmarks 3 of Inl e \<Rightarrow> Inl e | Inr p_bottom \<Rightarrow>
        (case getitem mouth_landmarks 0 of Inl e \<Rightarrow> Inl e | Inr p_left \<Rightarrow>
        (case getitem mouth_landmarks 1 of Inl e \<Rightarrow> Inl e | Inr p_right \<Rightarrow>
           (let mouth_height = \<bar>snd p_top - snd p_bottom\<bar>;
                mouth_width = \<bar>fst p_left - fst p_right\<bar>
            in (case float_of_int mouth_width of
                  Inl e \<Rightarrow> Inl e
                | Inr w \<Rightarrow> Inr (int_gt_float mouth_height (float_mul w float_0_3))))))))
      else Inr False)"

section \<open>painter.py\<close>

subsection \<open>UIElement\<close>

text \<open>
  The attributes \<open>x, y, w, h, color, text, alpha, text_color, is_visible\<close> of the class,
  with the prefix \<open>el_\<close>. \<open>draw\<close> renders pixels and is not modelled.
\<close>

record UIElement =
  el_x :: int
  el_y :: int
  el_w :: int
  el_h :: int
  el_color :: color
  el_text :: string
  el_alpha :: py_float
  el_text_color :: color
  is_visible :: bool

definition UIElement_init ::
  "int \<Rightarrow> int \<Rightarrow> int \<Rightarrow> int \<Rightarrow> color \<Rightarrow> string \<Rightarrow> py_float \<Rightarrow> color \<Rightarrow> UIElement" where
  "UIElement_init px py pw ph c t a tc =
     \<lparr>el_x = px, el_y = py, el_w = pw, el_h = ph, el_color = c, el_text = t,
      el_alpha = a, el_text_color = tc, is_visible = True\<rparr>"

definition is_over :: "UIElement \<Rightarrow> int \<Rightarrow> int \<Rightarrow> bool" where
  "is_over el px py =
     ((el_x el < px \<and> px < el_x el + el_w el) \<and> (el_y el < py \<and> py < el_y el + el_h el))"

subsection \<open>PainterUI\<close>

record PainterUI =
  canvas_background_color :: color
  width :: int
  height :: int
  shape_y :: int
  toggle_buttons :: "UIElement list"
  button_actions :: "(string \<times> string) list"
  colors :: "UIElement list"
  pen_sizes :: "UIElement list"
  shapes :: "UIElement list"
  canvas :: UIElement
  current_color :: color
  current_brush_size :: int
  hide_colors :: bool
  hide_pen_sizes :: bool
  hide_shapes :: bool
  current_shape :: "string option"
  shape_start_point :: "point option"
  shape_drawing_mode :: bool

definition color_palette :: "color list" where
  "color_palette =
     [(50, 120, 220), (80, 180, 120), (230, 130, 80), (180, 80, 180), (220, 90, 120)]"

text \<open>\<open>PainterUI.__init__(width, height)\<close>; the main loop calls it with the defaults 1280, 720.\<close>

definition PainterUI_init :: "int \<Rightarrow> int \<Rightarrow> PainterUI" where
  "PainterUI_init width_arg height_arg =
     (let base_x = 50 :: int;
          base_y = 20 :: int;
          button_width = 120 :: int;
          button_height = 50 :: int;
          horizontal_spacing = 10 :: int;
          vertical_spacing = 10 :: int;
          button_color = (100, 100, 100);
          color_x = base_x;
          color_y = base_y + button_height + vertical_spacing;
          pen_x = base_x;
          pen_y = color_y + button_height + vertical_spacing;
          pen_color = (70, 70, 70);
          shape_x = base_x;
          shape_y_local = pen_y + button_height + vertical_spacing;
          shape_color = (90, 90, 90)
      in \<lparr>canvas_background_color = (255, 255, 255),
          width = width_arg,
          height = height_arg,
          shape_y = 100,
          toggle_buttons =
            map (\<lambda>(i, btn_text).
                   UIElement_init (base_x + (button_width + horizontal_spacing) * int i) base_y
                     button_width button_height button_color btn_text float_1_0 (255, 255, 255))
              (enumerate 0 [''Colors'', ''Shapes'', ''Pen'', ''Save'', ''Clear'']),
          button_actions =
            [(''Colors'', ''hide_colors''), (''Shapes'', ''hide_shapes''),
             (''Pen'', ''hide_pen_sizes''), (''Save'', ''save_drawing''),
             (''Clear'', ''clear_canvas'')],
          colors =
            map (\<lambda>(i, c).
                   UIElement_init (color_x + (80 + horizontal_spacing) * int i) color_y
                     80 button_height c [] float_0_8 (0, 0, 0))
              (enumerate 0 color_palette)
            @ [UIElement_init (color_x + (80 + horizontal_spacing) * int (length color_palette))
                 color_y 100 button_height (240, 240, 240) ''Eraser'' float_0_8 (50, 50, 50)],
          pen_sizes =
            map (\<lambda>(i, sz).
                   UIElement_init (pen_x + (button_width + horizontal_spacing) * int i) pen_y
                     button_width button_height pen_color (py_str sz) float_1_0 (255, 255, 255))
              (enumerate 0 (py_range 5 25 5)),
          shapes =
            map (\<lambda>(i, shape).
                   UIElement_init (shape_x + (button_width + horizontal_spacing) * int i)
                     shape_y_local button_width button_height shape_color shape float_1_0
                     (255, 255, 255))
              (enumerate 0 [''Circle'', ''Rectangle'', ''Triangle'']),
          canvas =
            UIElement_init 50 (shape_y_local - 70) (width_arg - 100) 1780 (240, 240, 240) []
              float_0_8 (255, 255, 255),
          current_color = color_palette ! 0,
          current_brush_size = 5,
          hide_colors = True,
          hide_pen_sizes = True,
          hide_shapes = True,
          current_shape = None,
          shape_start_point = None,
          shape_drawing_mode = False\<rparr>)"

text \<open>
  The zones of the user interface and the table of toggle actions: what \<open>__init__\<close>
  builds and nothing later assigns.
\<close>

definition zones ::
  "PainterUI \<Rightarrow> UIElement list \<times> (string \<times> string) list \<times> UIElement list
     \<times> UIElement list \<times> UIElement list \<times> UIElement" where
  "zones ui =
     (toggle_buttons ui, button_actions ui, colors ui, pen_sizes ui, shapes ui, canvas ui)"

subsection \<open>handle\_interactions\<close>

text \<open>
  The dictionary \<open>interactions\<close> has six fixed keys; it is a record whose fields are the
  keys with the prefix \<open>i_\<close>.
\<close>

record interactions =
  i_color_changed :: bool
  i_brush_size_changed :: bool
  i_clear_canvas :: bool
  i_drawing_mode :: bool
  i_shape_drawing_mode :: bool
  i_save_drawing :: bool

definition interactions_init :: interactions where
  "interactions_init =
     \<lparr>i_color_changed = False, i_brush_size_changed = False, i_clear_canvas = False,
      i_drawing_mode = False, i_shape_drawing_mode = False, i_save_drawing = False\<rparr>"

text \<open>
  The function is a sequence of six blocks, each a definition below under the name of the
  comment that opens it in the source. A loop \<open>for btn in zone: if btn.is_over(x, y): ...;
  break\<close> acts on the first element the pointer is over: \<open>find\<close>. \<open>index_up\<close> and
  \<open>thumb_up\<close> are \<open>fingers_up[1]\<close> and \<open>fingers_up[0]\<close>.
\<close>

definition check_toggle_buttons ::
  "PainterUI \<Rightarrow> interactions \<Rightarrow> int \<Rightarrow> int \<Rightarrow> bool \<Rightarrow> PainterUI \<times> interactions" where
  "check_toggle_buttons ui flags px py index_up =
     (if index_up then
        (case find (\<lambda>btn. is_over btn px py) (toggle_buttons ui) of
           None \<Rightarrow> (ui, flags)
         | Some btn \<Rightarrow>
             (let action = map_of (button_actions ui) (el_text btn)
              in if action = Some ''hide_colors'' then
                   (ui\<lparr>hide_colors := \<not> hide_colors ui\<rparr>, flags)
                 else if action = Some ''hide_shapes'' then
                   (ui\<lparr>hide_shapes := \<not> hide_shapes ui\<rparr>, flags)
                 else if action = Some ''hide_pen_sizes'' then
                   (ui\<lparr>hide_pen_sizes := \<not> hide_pen_sizes ui\<rparr>, flags)
                 else if action = Some ''clear_canvas'' then
                   (ui, flags\<lparr>i_clear_canvas := True\<rparr>)
                 else if action = Some ''save_drawing'' then
                   (ui, flags\<lparr>i_save_drawing := True\<rparr>)
                 else (ui, flags)))
      else (ui, flags))"

definition color_selection ::
  "PainterUI \<Rightarrow> interactions \<Rightarrow> int \<Rightarrow> int \<Rightarrow> bool \<Rightarrow> PainterUI \<times> interactions" where
  "color_selection ui flags px py index_up =
     (if \<not> hide_colors ui \<and> index_up then
        (case find (\<lambda>color_btn. is_over color_btn px py) (colors ui) of
           None \<Rightarrow> (ui, flags)
         | Some color_btn \<Rightarrow>
             (if el_text color_btn = ''Eraser'' then
                ui\<lparr>current_color := canvas_background_color ui, current_brush_size := 20\<rparr>
              else
                ui\<lparr>current_color := el_color color_btn, current_brush_size := 5\<rparr>,
              flags\<lparr>i_color_changed := True\<rparr>))
      else (ui, flags))"

definition pen_size_selection ::
  "PainterUI \<Rightarrow> interactions \<Rightarrow> int \<Rightarrow> int \<Rightarrow> bool
     \<Rightarrow> py_error + (PainterUI \<times> interactions)" where
  "pen_size_selection ui flags px py index_up =
     (if \<not> hide_pen_sizes ui \<and> index_up then
        (case find (\<lambda>pen_size_btn. is_over pen_size_btn px py) (pen_sizes ui) of
           None \<Rightarrow> Inr (ui, flags)
         | Some pen_size_btn \<Rightarrow>
             (case py_int (el_text pen_size_btn) of
                Inl e \<Rightarrow> Inl e
              | Inr n \<Rightarrow>
                  Inr (ui\<lparr>current_brush_size := n\<rparr>, flags\<lparr>i_brush_size_changed := True\<rparr>)))
      else Inr (ui, flags))"

definition shape_selection :: "PainterUI \<Rightarrow> int \<Rightarrow> int \<Rightarrow> bool \<Rightarrow> PainterUI" where
  "shape_selection ui px py index_up =
     (if \<not> hide_shapes ui \<and> index_up then
        (case find (\<lambda>shape_btn. is_over shape_btn px py) (shapes ui) of
           None \<Rightarrow> ui
         | Some shape_btn \<Rightarrow>
             ui\<lparr>current_shape := Some (el_text shape_btn), shape_drawing_mode := False\<rparr>)
      else ui)"

definition drawing_mode_check ::
  "PainterUI \<Rightarrow> interactions \<Rightarrow> int \<Rightarrow> int \<Rightarrow> bool \<Rightarrow> bool \<Rightarrow> interactions" where
  "drawing_mode_check ui flags px py index_up thumb_up =
     (if is_over (canvas ui) px py then
        (if index_up \<and> \<not> thumb_up then flags\<lparr>i_drawing_mode := True\<rparr> else flags)
      else flags)"

text \<open>The truth value Python gives \<open>self.current_shape\<close>: \<open>None\<close> and the empty string are false.\<close>

definition shape_selected :: "string option \<Rightarrow> bool" where
  "shape_selected s = (case s of None \<Rightarrow> False | Some t \<Rightarrow> t \<noteq> [])"

definition shape_drawing_check ::
  "PainterUI \<Rightarrow> interactions \<Rightarrow> int \<Rightarrow> int \<Rightarrow> bool \<Rightarrow> PainterUI \<times> interactions" where
  "shape_drawing_check ui flags px py thumb_up =
     (if is_over (canvas ui) px py then
        (if \<not> hide_shapes ui \<and> shape_selected (current_shape ui) then
           (if \<not> shape_drawing_mode ui \<and> thumb_up then
              (ui\<lparr>shape_start_point := Some (px, py), shape_drawing_mode := True\<rparr>,
               flags\<lparr>i_shape_drawing_mode := True\<rparr>)
            else if shape_drawing_mode ui \<and> \<not> thumb_up then
              (ui\<lparr>shape_drawing_mode := False, current_shape := None\<rparr>, flags)
            else (ui, flags))
         else (ui, flags))
      else (ui, flags))"

text \<open>
  \<open>fingers_up[1]\<close> is read first (line 285) and raises \<open>IndexError\<close> on a list shorter than
  two; every later read of \<open>fingers_up[0]\<close> is then in range, so reading it once after
  \<open>fingers_up[1]\<close> gives the same result.
\<close>

definition handle_interactions ::
  "PainterUI \<Rightarrow> int \<Rightarrow> int \<Rightarrow> bool list \<Rightarrow> py_error + (PainterUI \<times> interactions)" where
  "handle_interactions ui px py fingers_up =
     (case getitem fingers_up 1 of Inl e \<Rightarrow> Inl e | Inr index_up \<Rightarrow>
     (case getitem fingers_up 0 of Inl e \<Rightarrow> Inl e | Inr thumb_up \<Rightarrow>
        (let (ui1, flags1) = check_toggle_buttons ui interactions_init px py index_up;
             (ui2, flags2) = color_selection ui1 flags1 px py index_up
         in (case pen_size_selection ui2 flags2 px py index_up of
               Inl e \<Rightarrow> Inl e
             | Inr (ui3, flags3) \<Rightarrow>
                 (let ui4 = shape_selection ui3 px py index_up;
                      flags5 = drawing_mode_check ui4 flags3 px py index_up thumb_up
                  in Inr (shape_drawing_check ui4 flags5 px py thumb_up))))))"

subsection \<open>draw\_shape\<close>

text \<open>
  The rasterisers \<open>cv2.line\<close>, \<open>cv2.circle\<close>, \<open>cv2.rectangle\<close> and \<open>cv2.polylines\<close> are
  external. An image is the list of the calls made on it since it was filled with white,
  in order, each with its arguments.
\<close>

datatype draw_op =
  Line point point color int
  | Circle point int color int
  | Rectangle point point color int
  | Polylines "point list" bool color int

type_synonym image = "draw_op list"

text \<open>
  \<open>draw_shape(canvas, start_point, end_point)\<close> draws on the array it is given and returns
  it: the function below gives the new content of that array. The radius is
  \<open>int(min(width, height) / 2)\<close>, a true division followed by a truncation. (The triangle's
  vertices go through a 32-bit integer array; pixel coordinates fit and the conversion
  is left out.)
\<close>

definition draw_shape :: "PainterUI \<Rightarrow> image \<Rightarrow> point \<Rightarrow> point \<Rightarrow> py_error + image" where
  "draw_shape ui img start_point end_point =
     (case start_point of (x1, y1) \<Rightarrow>
      case end_point of (x2, y2) \<Rightarrow>
        (let w = \<bar>x2 - x1\<bar>; h = \<bar>y2 - y1\<bar>
         in if current_shape ui = Some ''Circle'' then
              (case int_truediv_2 (min w h) of
                 Inl e \<Rightarrow> Inl e
               | Inr half \<Rightarrow>
                   Inr (img @ [Circle (x1, y1) (int_of_float half)
                                 (current_color ui) (current_brush_size ui)]))
            else if current_shape ui = Some ''Rectangle'' then
              Inr (img @ [Rectangle start_point end_point
                            (current_color ui) (current_brush_size ui)])
            else if current_shape ui = Some ''Triangle'' then
              Inr (img @ [Polylines [(x1, y2), (x2, y2), ((x1 + x2) div 2, y1)] True
                            (current_color ui) (current_brush_size ui)])
            else Inr img))"

section \<open>main.py\<close>

subsection \<open>The save trigger (lines 37--41 and 77--106)\<close>

definition SAVE_COOLDOWN_FRAMES :: int where
  "SAVE_COOLDOWN_FRAMES = 60"

definition MOUTH_OPEN_THRESHOLD :: int where
  "MOUTH_OPEN_THRESHOLD = 10"

record save_state =
  save_cooldown :: int
  mouth_open_count :: int

definition save_state_init :: save_state where
  "save_state_init = \<lparr>save_cooldown = 0, mouth_open_count = 0\<rparr>"

text \<open>
  One frame of the trigger, from \<open>is_mouth_open\<close>: the new counters, and whether the frame
  saved the canvas (the body of the \<open>if\<close> of line 91 ran).
\<close>

definition save_step :: "save_state \<Rightarrow> bool \<Rightarrow> save_state \<times> bool" where
  "save_step st is_mouth_open =
     (let cooldown = (if 0 < save_cooldown st then save_cooldown st - 1 else save_cooldown st);
          open_count = (if is_mouth_open then mouth_open_count st + 1 else 0)
      in if MOUTH_OPEN_THRESHOLD \<le> open_count \<and> cooldown = 0 then
           (\<lparr>save_cooldown = SAVE_COOLDOWN_FRAMES, mouth_open_count = 0\<rparr>, True)
         else (\<lparr>save_cooldown = cooldown, mouth_open_count = open_count\<rparr>, False))"

text \<open>A run of frames: the state after them and, frame by frame, whether a save fired.\<close>

fun save_run :: "save_state \<Rightarrow> bool list \<Rightarrow> save_state \<times> bool list" where
  "save_run st [] = (st, [])"
| "save_run st (b # bs) =
     (case save_step st b of (st1, fired) \<Rightarrow>
        (case save_run st1 bs of (st2, events) \<Rightarrow> (st2, fired # events)))"

subsection \<open>The pointer (lines 108--145)\<close>

text \<open>
  The arrays live in a store: \<open>heap\<close> maps an address to the content of the array there,
  \<open>next_addr\<close> is the first address not yet used, and \<open>canvas_ref\<close> is the address the
  variable \<open>canvas\<close> is bound to. \<open>np.zeros(...) + 255\<close> and \<open>canvas.copy()\<close> allocate,
  \<open>cv2.line\<close> and \<open>draw_shape\<close> write in place, and an assignment to \<open>canvas\<close> rebinds
  \<open>canvas_ref\<close>. \<open>previous_xy\<close> is the pair \<open>(previous_x, previous_y)\<close>.
\<close>

record main_state =
  painter_ui :: PainterUI
  heap :: "nat \<Rightarrow> image"
  next_addr :: nat
  canvas_ref :: nat
  previous_xy :: point

definition main_state_init :: main_state where
  "main_state_init =
     \<lparr>painter_ui = PainterUI_init 1280 720, heap = (\<lambda>a. []), next_addr = 1,
      canvas_ref = 0, previous_xy = (0, 0)\<rparr>"

text \<open>Lines 120--121: \<open>if interactions['clear_canvas']: canvas = np.zeros(...) + 255\<close>.\<close>

definition clear_step :: "interactions \<Rightarrow> main_state \<Rightarrow> main_state" where
  "clear_step flags st =
     (if i_clear_canvas flags then
        st\<lparr>heap := (heap st)(next_addr st := []),
           canvas_ref := next_addr st,
           next_addr := Suc (next_addr st)\<rparr>
      else st)"

text \<open>
  Lines 124--139, the \<open>if\<close> / \<open>elif\<close> that draws. A point \<open>(x, y)\<close> is a non-empty tuple and
  so true for Python, \<open>None\<close> is false. \<open>smoothed\<close> is \<open>(int(smooth_x), int(smooth_y))\<close>.
\<close>

definition draw_step :: "interactions \<Rightarrow> main_state \<Rightarrow> point \<Rightarrow> py_error + main_state" where
  "draw_step flags st smoothed =
     (case (if i_shape_drawing_mode flags then shape_start_point (painter_ui st) else None) of
        Some start_point \<Rightarrow>
          (let preview_canvas = next_addr st;
               copied = (heap st)(preview_canvas := heap st (canvas_ref st))
           in (case draw_shape (painter_ui st) (copied preview_canvas) start_point smoothed of
                 Inl e \<Rightarrow> Inl e
               | Inr img \<Rightarrow>
                   Inr (st\<lparr>heap := copied(preview_canvas := img),
                           next_addr := Suc preview_canvas,
                           canvas_ref := preview_canvas\<rparr>)))
      | None \<Rightarrow>
          (if i_drawing_mode flags \<and> previous_xy st \<noteq> (0, 0) then
             Inr (st\<lparr>heap := (heap st)(canvas_ref st :=
                          heap st (canvas_ref st)
                          @ [Line (previous_xy st) smoothed
                               (current_color (painter_ui st))
                               (current_brush_size (painter_ui st))])\<rparr>)
           else Inr st))"

text \<open>
  Lines 109--145 for one frame. \<open>pointing_finger\<close> is what \<open>get_pointing_finger\<close> returned
  and \<open>fingers_up\<close> what \<open>detect_gesture\<close> returned (or the empty default); the smoothing
  of lines 113--114 touches \<open>smooth_x\<close> and \<open>smooth_y\<close> only and is modelled on its own
  below (\<open>smooth_xy\<close>), and \<open>smoothed\<close> is its result after \<open>int(...)\<close>
  (\<open>smoothed_point\<close>), the point handed to \<open>handle_interactions\<close> and to the drawing
  calls.
\<close>

definition pointer_phase ::
  "main_state \<Rightarrow> point option \<Rightarrow> bool list \<Rightarrow> point \<Rightarrow> py_error + main_state" where
  "pointer_phase st pointing_finger fingers_up smoothed =
     (if pointing_finger \<noteq> None \<and> fingers_up \<noteq> [] then
        (case handle_interactions (painter_ui st) (fst smoothed) (snd smoothed) fingers_up of
           Inl e \<Rightarrow> Inl e
         | Inr (ui, flags) \<Rightarrow>
             (case draw_step flags (clear_step flags (st\<lparr>painter_ui := ui\<rparr>)) smoothed of
                Inl e \<Rightarrow> Inl e
              | Inr st1 \<Rightarrow> Inr (st1\<lparr>previous_xy := smoothed\<rparr>)))
      else Inr (st\<lparr>previous_xy := (0, 0)\<rparr>))"

text \<open>
  The frames of the loop, for the pointer: each frame gives \<open>pointing_finger\<close>,
  \<open>fingers_up\<close> and the smoothed point; an exception ends the run.
\<close>

fun pointer_frames ::
  "main_state \<Rightarrow> (point option \<times> bool list \<times> point) list \<Rightarrow> py_error + main_state" where
  "pointer_frames st [] = Inr st"
| "pointer_frames st ((pointing_finger, fingers_up, smoothed) # rest) =
     (case pointer_phase st pointing_finger fingers_up smoothed of
        Inl e \<Rightarrow> Inl e
      | Inr st1 \<Rightarrow> pointer_frames st1 rest)"


subsection \<open>The pointer smoother\<close>

text \<open>
  Line 45: \<open>alpha = 0.4\<close>. Lines 113--114, for one coordinate:
  \<open>smooth_x = alpha * x + (1 - alpha) * smooth_x\<close>, where \<open>x\<close> is an integer (a landmark
  coordinate) that the product converts to a float, and \<open>1\<close> is the integer one.
\<close>

definition alpha :: py_float where
  "alpha = float_0_4"

definition smooth_step :: "py_float \<Rightarrow> int \<Rightarrow> py_error + py_float" where
  "smooth_step smooth x =
     (case float_of_int x of
        Inl e \<Rightarrow> Inl e
      | Inr fx \<Rightarrow>
          Inr (float_add (float_mul alpha fx) (float_mul (float_sub float_1_0 alpha) smooth)))"

text \<open>
  Lines 111--114 for one frame with a pointer: \<open>x, y = pointing_finger\<close>, then the two
  updates, \<open>smooth_x\<close> first.
\<close>

definition smooth_xy ::
  "py_float \<times> py_float \<Rightarrow> point \<Rightarrow> py_error + (py_float \<times> py_float)" where
  "smooth_xy smooth pointing_finger =
     (case pointing_finger of (x, y) \<Rightarrow>
        (case smooth_step (fst smooth) x of
           Inl e \<Rightarrow> Inl e
         | Inr smooth_x \<Rightarrow>
             (case smooth_step (snd smooth) y of
                Inl e \<Rightarrow> Inl e
              | Inr smooth_y \<Rightarrow> Inr (smooth_x, smooth_y))))"

text \<open>
  Line 44: \<open>smooth_x, smooth_y = 0, 0\<close>. The two are the integer 0 until the first update,
  whose product \<open>(1 - alpha) * smooth_x\<close> converts it to the float \<open>0.0\<close>, the pair \<open>(0, 0)\<close>
  here.
\<close>

definition smooth_init :: "py_float \<times> py_float" where
  "smooth_init = ((0, 0), (0, 0))"

text \<open>
  The smoother over the frames that have a pointer (a frame without one leaves
  \<open>smooth_x\<close> and \<open>smooth_y\<close> as they are), and the same loop for one coordinate.
\<close>

fun smooth_frames ::
  "py_float \<times> py_float \<Rightarrow> point list \<Rightarrow> py_error + (py_float \<times> py_float)" where
  "smooth_frames smooth [] = Inr smooth"
| "smooth_frames smooth (pointing_finger # rest) =
     (case smooth_xy smooth pointing_finger of
        Inl e \<Rightarrow> Inl e
      | Inr smooth1 \<Rightarrow> smooth_frames smooth1 rest)"

fun smooth_coord :: "py_float \<Rightarrow> int list \<Rightarrow> py_error + py_float" where
  "smooth_coord smooth [] = Inr smooth"
| "smooth_coord smooth (x # rest) =
     (case smooth_step smooth x of
        Inl e \<Rightarrow> Inl e
      | Inr smooth1 \<Rightarrow> smooth_coord smooth1 rest)"

text \<open>\<open>(int(smooth_x), int(smooth_y))\<close>, the point of lines 117, 129, 136 and 142.\<close>

definition smoothed_point :: "py_float \<times> py_float \<Rightarrow> point" where
  "smoothed_point smooth = (int_of_float (fst smooth), int_of_float (snd smooth))"

text \<open>
  The update of one coordinate with its constants evaluated: \<open>1 - alpha\<close> is the double
  \<open>0x1.3333333333333p-1\<close>, and a raw coordinate below \<open>2 ^ 48\<close> in magnitude converts to
  itself.
\<close>

definition ema :: "py_float \<Rightarrow> int \<Rightarrow> py_float" where
  "ema s x = float_add (float_mul float_0_4 (x, 0)) (float_mul (5404319552844595, - 53) s)"
section \<open>Properties of the shared values\<close>

lemma getitem_in_range: "i < length xs \<Longrightarrow> getitem xs i = Inr (xs ! i)"
  by (simp add: getitem_def)

lemma getitem_out_of_range: "length xs \<le> i \<Longrightarrow> getitem xs i = Inl IndexError"
  by (simp add: getitem_def)

lemma rhe_bounds:
  "n div 2 ^ k \<le> round_half_even n k \<and> round_half_even n k \<le> n div 2 ^ k + 1"
  by (simp add: round_half_even_def Let_def)

lemma rhe_up: "2 ^ k < 2 * (n mod 2 ^ k) \<Longrightarrow> round_half_even n k = n div 2 ^ k + 1"
  by (simp add: round_half_even_def Let_def)

lemma rhe_zero: "round_half_even n 0 = n"
  by (simp add: round_half_even_def Let_def)

lemma round_to_double_pos:
  assumes "0 < m"
  shows "round_to_double m e =
           (round_half_even m (nat (bitlen m - 53)), e + max 0 (bitlen m - 53))"
  using assms by (auto simp: round_to_double_def Let_def rhe_zero max_def)

lemma bitlen_pow_bounds:
  assumes "0 < (n::int)"
  shows "2 ^ nat (bitlen n - 1) \<le> n" "n < 2 ^ nat (bitlen n)" "1 \<le> bitlen n"
  using bitlen_bounds [OF assms] assms by (auto simp: bitlen_alt_def)

text \<open>A small integer converts to a float exactly.\<close>

lemma float_of_int_exact:
  assumes "0 \<le> n" "n < 2 ^ 48"
  shows "float_of_int n = Inr (n, 0)"
proof -
  have "bitlen n \<le> 48" using assms by (simp add: bitlen_le_iff_power)
  then show ?thesis
    using assms by (simp add: float_of_int_def round_to_double_def float_overflows_def Let_def)
qed

text \<open>
  The arithmetic behind the comparison with \<open>w * 0.3\<close>. \<open>N\<close> is the exact product of \<open>w\<close>
  and the significand of 0.3, \<open>K\<close> the power of two that rounding divides by, \<open>R\<close> the
  rounded significand; \<open>10 * 5404319552844595 = 3 * 2 ^ 54 - 2\<close>.
\<close>

lemma rounded_product_compare:
  fixes h w N q r R K P :: int
  assumes K: "0 < K" and w: "0 < w"
    and N: "N = w * 5404319552844595"
    and qr: "N = q * K + r" "0 \<le> r" "r < K"
    and R: "q \<le> R" "R \<le> q + 1" "K < 2 * r \<Longrightarrow> R = q + 1"
    and PK: "P * K = 18014398509481984"
    and Kw: "K < 2 * w" "w < 2 * K" "w < 2 ^ 48"
  shows "R < h * P \<longleftrightarrow> 3 * w < 10 * h"
proof -
  have hT: "h * P * K = h * 18014398509481984"
    using PK by (simp add: mult.assoc)
  have cmp: "R < h * P \<longleftrightarrow> R * K < h * 18014398509481984"
  proof -
    have "R < h * P \<longleftrightarrow> R * K < h * P * K"
      using K by (simp add: mult_less_cancel_right_pos)
    then show ?thesis by (simp add: hT)
  qed
  have RK: "R * K = q * K \<or> R * K = q * K + K"
  proof -
    from R(1,2) have "R = q \<or> R = q + 1" by linarith
    then show ?thesis by (auto simp: distrib_right)
  qed
  have w48: "w < 281474976710656" using Kw(3) by simp
  show ?thesis
  proof (cases "3 * w < 10 * h")
    case True
    then have "R * K < h * 18014398509481984"
      using RK N qr Kw(1) w48 by linarith
    with True cmp show ?thesis by simp
  next
    case False
    have "h * 18014398509481984 \<le> R * K"
    proof (cases "10 * h = 3 * w")
      case False
      with \<open>\<not> 3 * w < 10 * h\<close> have "10 * h \<le> 3 * w - 1" by linarith
      then show ?thesis
        using RK N qr Kw(1) w48 by linarith
    next
      case True
      define d where "d = h * P - q"
      have dK: "5 * (d * K) = 5 * r + w"
      proof -
        have "d * K = h * 18014398509481984 - q * K"
          by (simp add: d_def left_diff_distrib hT)
        then show ?thesis using True N qr(1) by linarith
      qed
      have d_ge: "0 \<le> d"
      proof (rule ccontr)
        assume "\<not> 0 \<le> d"
        then have "d \<le> - 1" by linarith
        then have "d * K \<le> (- 1) * K" using K by (intro mult_right_mono) auto
        then show False using dK qr(2) w K by linarith
      qed
      have d_le: "d \<le> 1"
      proof (rule ccontr)
        assume "\<not> d \<le> 1"
        then have "2 \<le> d" by linarith
        then have "2 * K \<le> d * K" using K by (intro mult_right_mono) auto
        then show False using dK qr(3) Kw(2) K by linarith
      qed
      from d_ge d_le have "d = 0 \<or> d = 1" by linarith
      then show ?thesis
      proof
        assume "d = 0"
        then have "h * P = q" by (simp add: d_def)
        then have "h * P \<le> R" using R(1) by simp
        then have "h * P * K \<le> R * K" using K by (intro mult_right_mono) auto
        then show ?thesis by (simp add: hT)
      next
        assume d1: "d = 1"
        then have "5 * K = 5 * r + w" using dK by simp
        then have "K < 2 * r" using Kw(2) K by linarith
        then have "R = q + 1" by (rule R(3))
        then have "h * P = R" using d1 by (simp add: d_def)
        then show ?thesis using hT by simp
      qed
    qed
    with False cmp show ?thesis by simp
  qed
qed

text \<open>
  For \<open>0 \<le> w < 2 ^ 48\<close>, the rounding of \<open>w * 0.3\<close> never moves the product across an
  integer it is compared with: \<open>h > w * 0.3\<close> in floating point is \<open>10 * h > 3 * w\<close>.
\<close>

lemma int_gt_rounded_0_3:
  fixes h w :: int
  assumes w0: "0 \<le> w" and w48: "w < 2 ^ 48"
  shows "int_gt_float h (round_to_double (w * 5404319552844595) (- 54))
           \<longleftrightarrow> 3 * w < 10 * h"
proof (cases "w = 0")
  case True
  then show ?thesis by (simp add: round_to_double_def int_gt_float_def Let_def)
next
  case False
  with w0 have wpos: "0 < w" by simp
  define N where "N = w * 5404319552844595"
  have Npos: "0 < N" using wpos by (simp add: N_def)
  have Nlow: "w * 2 ^ 52 \<le> N" using wpos by (simp add: N_def)
  have Nhigh: "N < w * 2 ^ 53" using wpos by (simp add: N_def)
  define L where "L = bitlen N"
  have L1: "2 ^ nat (L - 1) \<le> N" and L2: "N < 2 ^ nat L"
    using bitlen_pow_bounds [OF Npos] by (simp_all add: L_def)
  have "(2::int) ^ 52 \<le> N" using Nlow wpos by simp
  with L2 have "(2::int) ^ 52 < 2 ^ nat L" by linarith
  then have "52 < nat L" by (simp only: power_strict_increasing_iff)
  then have L53: "53 \<le> L" by simp
  have "w * 2 ^ 53 < 2 ^ 48 * (2 ^ 53 :: int)"
    using w48 by (intro mult_strict_right_mono) simp_all
  with Nhigh have "N < 2 ^ 101" by simp
  with L1 have "(2::int) ^ nat (L - 1) < 2 ^ 101" by linarith
  then have "nat (L - 1) < 101" by (simp only: power_strict_increasing_iff)
  then have L101: "L \<le> 101" by simp
  define k where "k = nat (L - 53)"
  define K :: int where "K = 2 ^ k"
  define P :: int where "P = 2 ^ (54 - k)"
  have k48: "k \<le> 48" using L101 by (simp add: k_def)
  have Kpos: "0 < K" by (simp add: K_def)
  have PK: "P * K = 18014398509481984"
  proof -
    have "P * K = 2 ^ (54 - k + k)" by (simp add: P_def K_def power_add)
    also have "54 - k + k = 54" using k48 by simp
    finally show ?thesis by simp
  qed
  have Lk: "nat (L - 1) = k + 52" "nat L = k + 53" using L53 by (simp_all add: k_def)
  have K1: "K * 2 ^ 52 \<le> N" using L1 by (simp add: Lk K_def power_add)
  have K2: "N < K * 2 ^ 53" using L2 by (simp add: Lk K_def power_add)
  have Kw1: "K < 2 * w" using K1 Nhigh by simp
  have Kw2: "w < 2 * K" using K2 Nlow by simp
  define R where "R = round_half_even N k"
  have rd: "round_to_double N (- 54) = (R, int k - 54)"
    using Npos L53 by (simp add: round_to_double_pos L_def [symmetric] k_def R_def max_def)
  have gt: "int_gt_float h (R, int k - 54) \<longleftrightarrow> R < h * P"
  proof -
    have "nat (54 - int k) = 54 - k" using k48 by simp
    then show ?thesis using k48 by (simp add: int_gt_float_def P_def)
  qed
  have "R < h * P \<longleftrightarrow> 3 * w < 10 * h"
  proof (rule rounded_product_compare [where N = N and q = "N div K" and r = "N mod K" and K = K])
    show "0 < K" by (rule Kpos)
    show "0 < w" by (rule wpos)
    show "N = w * 5404319552844595" by (simp add: N_def)
    show "N = N div K * K + N mod K" by simp
    show "0 \<le> N mod K" using Kpos by simp
    show "N mod K < K" using Kpos by simp
    show "N div K \<le> R" using rhe_bounds [of N k] by (simp add: R_def K_def)
    show "R \<le> N div K + 1" using rhe_bounds [of N k] by (simp add: R_def K_def)
    show "R = N div K + 1" if "K < 2 * (N mod K)"
      using that rhe_up [of k N] by (simp add: R_def K_def)
    show "P * K = 18014398509481984" by (rule PK)
    show "K < 2 * w" by (rule Kw1)
    show "w < 2 * K" by (rule Kw2)
    show "w < 2 ^ 48" by (rule w48)
  qed
  with gt rd show ?thesis by (simp add: N_def)
qed

text \<open>
  The float operations on values Python prints: \<open>3 * 0.3\<close> is \<open>0.8999999999999999\<close>
  (\<open>0x1.ccccccccccccc p-1\<close>), \<open>10 * 0.3\<close> is exactly \<open>3.0\<close>, \<open>100 * 0.3\<close> is exactly
  \<open>30.0\<close>, and \<open>int(7 / 2)\<close> is 3.
\<close>

lemma python_3_times_0_3: "float_mul (3, 0) float_0_3 = (8106479329266892, - 53)"
  by code_simp

lemma python_10_times_0_3: "float_mul (10, 0) float_0_3 = (3 * 2 ^ 51, - 51)"
  by code_simp

lemma python_100_times_0_3: "float_mul (100, 0) float_0_3 = (30 * 2 ^ 48, - 48)"
  by code_simp

lemma python_int_7_over_2: "int_truediv_2 7 = Inr (7, - 1) \<and> int_of_float (7, - 1) = 3"
  by code_simp

section \<open>Properties of the hand tracker\<close>

text \<open>
  C5. \<open>detect_gesture\<close> returns the empty list for fewer than 21 landmark points. With 21
  points (or more) it returns five booleans in the order thumb, index, middle, ring,
  pinky: the thumb entry is true iff the x of landmark 4 is less than the x of landmark 1,
  and the entry of each other finger is true iff the y of its tip (8, 12, 16, 20) is
  strictly less than the y of its second joint (6, 10, 14, 18). No read is out of range.
\<close>

theorem detect_gesture_spec:
  "(length landmarks < 21 \<longrightarrow> detect_gesture landmarks = Inr []) \<and>
   (21 \<le> length landmarks \<longrightarrow>
      detect_gesture landmarks =
        Inr [fst (landmarks ! 4) < fst (landmarks ! 1),
             snd (landmarks ! 8) < snd (landmarks ! 6),
             snd (landmarks ! 12) < snd (landmarks ! 10),
             snd (landmarks ! 16) < snd (landmarks ! 14),
             snd (landmarks ! 20) < snd (landmarks ! 18)])"
proof (intro conjI impI)
  assume "length landmarks < 21"
  then show "detect_gesture landmarks = Inr []"
    by (simp add: detect_gesture_def)
next
  assume len: "21 \<le> length landmarks"
  have g: "getitem landmarks i = Inr (landmarks ! i)" if "i \<le> 20" for i
    using that len by (simp add: getitem_in_range)
  show "detect_gesture landmarks =
        Inr [fst (landmarks ! 4) < fst (landmarks ! 1),
             snd (landmarks ! 8) < snd (landmarks ! 6),
             snd (landmarks ! 12) < snd (landmarks ! 10),
             snd (landmarks ! 16) < snd (landmarks ! 14),
             snd (landmarks ! 20) < snd (landmarks ! 18)]"
    using len by (simp add: detect_gesture_def fingertip_landmarks_def g)
qed

theorem detect_gesture_spec_witness:
  "length [(0, 0), (1, 1) :: point] < 21 \<and>
   detect_gesture [(0, 0), (1, 1)] = Inr [] \<and>
   21 \<le> length
     [(300, 500), (260, 470 :: int), (230, 440), (210, 410), (190, 380),
      (280, 400), (285, 350), (288, 320), (290, 290), (310, 395),
      (312, 340), (314, 360), (315, 390), (335, 400), (338, 360),
      (339, 380), (340, 405), (360, 410), (365, 380), (368, 360), (370 :: int, 345)] \<and>
   detect_gesture
     [(300, 500), (260, 470), (230, 440), (210, 410), (190, 380),
      (280, 400), (285, 350), (288, 320), (290, 290), (310, 395),
      (312, 340), (314, 360), (315, 390), (335, 400), (338, 360),
      (339, 380), (340, 405), (360, 410), (365, 380), (368, 360), (370, 345)]
     = Inr [True, True, False, False, True]"
  using detect_gesture_spec [of "[(0, 0), (1, 1)]"]
    detect_gesture_spec [of
     "[(300, 500), (260, 470), (230, 440), (210, 410), (190, 380),
      (280, 400), (285, 350), (288, 320), (290, 290), (310, 395),
      (312, 340), (314, 360), (315, 390), (335, 400), (338, 360),
      (339, 380), (340, 405), (360, 410), (365, 380), (368, 360), (370, 345)]"]
  by simp

text \<open>
  C3, as the code has it. The guard of \<open>get_pointing_finger\<close> is about index 8, not about
  a complete hand of 21 points: the function returns landmark 8 whenever at least 9
  landmark points are present, and returns \<open>None\<close> whenever fewer than 8 are present.
\<close>

theorem get_pointing_finger_spec:
  "(9 \<le> length landmarks \<longrightarrow>
      get_pointing_finger landmarks = Inr (Some (landmarks ! 8))) \<and>
   (length landmarks < 8 \<longrightarrow> get_pointing_finger landmarks = Inr None)"
  by (simp add: get_pointing_finger_def getitem_def)

theorem get_pointing_finger_spec_witness:
  "9 \<le> length [(0, 0), (1, 10), (2, 20), (3, 30), (4, 40), (5, 50), (6, 60), (7, 70),
                 (8, 80) :: point] \<and>
   get_pointing_finger
     [(0, 0), (1, 10), (2, 20), (3, 30), (4, 40), (5, 50), (6, 60), (7, 70), (8, 80)]
     = Inr (Some (8, 80)) \<and>
   length [(0, 0), (1, 10) :: point] < 8 \<and>
   get_pointing_finger [(0, 0), (1, 10)] = Inr None"
  using get_pointing_finger_spec
      [of "[(0, 0), (1, 10), (2, 20), (3, 30), (4, 40), (5, 50), (6, 60), (7, 70), (8, 80)]"]
    get_pointing_finger_spec [of "[(0, 0), (1, 10)]"]
  by simp

text \<open>
  Nine landmark points are fewer than 21, and \<open>get_pointing_finger\<close> still produces a
  pointer from them.
\<close>

theorem get_pointing_finger_nine_points:
  "length [(0, 0), (1, 10), (2, 20), (3, 30), (4, 40), (5, 50), (6, 60), (7, 70),
           (8, 80) :: point] < 21 \<and>
   get_pointing_finger
     [(0, 0), (1, 10), (2, 20), (3, 30), (4, 40), (5, 50), (6, 60), (7, 70), (8, 80)]
     = Inr (Some (8, 80))"
  by (simp add: get_pointing_finger_def getitem_def)

text \<open>
  C10. A list of exactly 8 landmark points passes the guard \<open>len(landmarks) >= 8\<close>, and the
  read of index 8 is then out of range: the call raises \<open>IndexError\<close> instead of returning
  a point or \<open>None\<close>.
\<close>

theorem get_pointing_finger_eight_points:
  "8 \<le> length [(0, 0), (1, 10), (2, 20), (3, 30), (4, 40), (5, 50), (6, 60),
                 (7, 70) :: point] \<and>
   get_pointing_finger
     [(0, 0), (1, 10), (2, 20), (3, 30), (4, 40), (5, 50), (6, 60), (7, 70)]
     = Inl IndexError"
  by (simp add: get_pointing_finger_def getitem_def)

section \<open>Properties of the mouth tracker\<close>

lemma real_ratio_iff: "(0.3 * real_of_int w < real_of_int h) = (3 * w < 10 * h)"
proof -
  have "(0.3 * real_of_int w < real_of_int h) = (real_of_int (3 * w) < real_of_int (10 * h))"
    by (simp add: mult.commute)
  also have "\<dots> = (3 * w < 10 * h)"
    by (simp only: of_int_less_iff)
  finally show ?thesis .
qed

text \<open>
  C8. \<open>detect_mouth_open\<close> returns false when fewer than 4 mouth landmark points are
  available. With the 4 points (left corner, right corner, top, bottom) it returns true
  iff the vertical gap \<open>|top.y - bottom.y|\<close> is strictly greater than 0.3 times the
  horizontal gap \<open>|left.x - right.x|\<close>, the product taken exactly. The code takes it in
  floating point; the two agree for every horizontal gap below \<open>2 ^ 48\<close> pixels.
\<close>

theorem detect_mouth_open_spec:
  "(length mouth_landmarks < 4 \<longrightarrow> detect_mouth_open mouth_landmarks = Inr False) \<and>
   (4 \<le> length mouth_landmarks \<and>
    \<bar>fst (mouth_landmarks ! 0) - fst (mouth_landmarks ! 1)\<bar> < 2 ^ 48 \<longrightarrow>
      detect_mouth_open mouth_landmarks =
        Inr (0.3 * real_of_int \<bar>fst (mouth_landmarks ! 0) - fst (mouth_landmarks ! 1)\<bar>
               < real_of_int \<bar>snd (mouth_landmarks ! 2) - snd (mouth_landmarks ! 3)\<bar>))"
proof (intro conjI impI)
  assume "length mouth_landmarks < 4"
  then show "detect_mouth_open mouth_landmarks = Inr False"
    by (simp add: detect_mouth_open_def)
next
  let ?w = "\<bar>fst (mouth_landmarks ! 0) - fst (mouth_landmarks ! 1)\<bar>"
  let ?h = "\<bar>snd (mouth_landmarks ! 2) - snd (mouth_landmarks ! 3)\<bar>"
  assume a: "4 \<le> length mouth_landmarks \<and> ?w < 2 ^ 48"
  have g: "getitem mouth_landmarks i = Inr (mouth_landmarks ! i)" if "i \<le> 3" for i
    using that a by (simp add: getitem_in_range)
  have conv: "float_of_int ?w = Inr (?w, 0)"
    using a by (intro float_of_int_exact) simp_all
  have prod: "float_mul (?w, 0) float_0_3 = round_to_double (?w * 5404319552844595) (- 54)"
    by (simp add: float_mul_def float_0_3_def)
  have "detect_mouth_open mouth_landmarks =
          Inr (int_gt_float ?h (round_to_double (?w * 5404319552844595) (- 54)))"
    using a conv prod by (simp add: detect_mouth_open_def g Let_def)
  also have "int_gt_float ?h (round_to_double (?w * 5404319552844595) (- 54))
               = (3 * ?w < 10 * ?h)"
    using a by (intro int_gt_rounded_0_3) simp_all
  also have "(3 * ?w < 10 * ?h) = (0.3 * real_of_int ?w < real_of_int ?h)"
    by (simp only: real_ratio_iff)
  finally show "detect_mouth_open mouth_landmarks =
                  Inr (0.3 * real_of_int ?w < real_of_int ?h)" .
qed

theorem detect_mouth_open_spec_witness:
  "length ([] :: point list) < 4 \<and>
   detect_mouth_open [] = Inr False \<and>
   4 \<le> length [(700, 400), (600, 400), (650, 380), (650, 420) :: point] \<and>
   \<bar>fst ([(700, 400), (600, 400), (650, 380), (650, 420) :: point] ! 0)
      - fst ([(700, 400), (600, 400), (650, 380), (650, 420) :: point] ! 1)\<bar> < 2 ^ 48 \<and>
   detect_mouth_open [(700, 400), (600, 400), (650, 380), (650, 420)] = Inr True"
  using detect_mouth_open_spec [of "[]"]
    detect_mouth_open_spec [of "[(700, 400), (600, 400), (650, 380), (650, 420)]"]
  by simp

text \<open>
  The function computes: a mouth 100 wide is still closed at a height of 30, where
  \<open>100 * 0.3\<close> is exactly \<open>30.0\<close>, and open at 31.
\<close>

lemma detect_mouth_open_at_threshold:
  "detect_mouth_open [(700, 400), (600, 400), (650, 385), (650, 415)] = Inr False \<and>
   detect_mouth_open [(700, 400), (600, 400), (650, 384), (650, 415)] = Inr True"
  by code_simp

section \<open>Properties of the save trigger\<close>

text \<open>While the cooldown is longer than the frames that follow, none of them saves.\<close>

lemma save_run_cooldown:
  "int (length bs) < save_cooldown st \<Longrightarrow>
     snd (save_run st bs) = replicate (length bs) False"
proof (induction bs arbitrary: st)
  case Nil
  then show ?case by simp
next
  case (Cons b bs)
  let ?st1 = "\<lparr>save_cooldown = save_cooldown st - 1,
               mouth_open_count = (if b then mouth_open_count st + 1 else 0)\<rparr>"
  have step: "save_step st b = (?st1, False)"
    using Cons.prems by (simp add: save_step_def Let_def)
  have ih: "snd (save_run ?st1 bs) = replicate (length bs) False"
    using Cons.prems by (intro Cons.IH) simp
  obtain st2 events where r: "save_run ?st1 bs = (st2, events)"
    by (cases "save_run ?st1 bs")
  show ?case
    using step r ih by simp
qed

lemma nine_open_one_closed:
  "replicate 9 True @ [False] =
     [True, True, True, True, True, True, True, True, True, False]"
  by (simp add: numeral_eq_Suc)

lemma ten_open:
  "replicate 10 True = [True, True, True, True, True, True, True, True, True, True]"
  by (simp add: numeral_eq_Suc)

text \<open>
  C4. With threshold 10 and cooldown 60: nine open frames followed by a closed frame,
  starting with the open-counter at zero, save nothing, whatever the cooldown; ten open
  frames starting with both counters at zero save exactly once, on the tenth; and after a
  frame that saved, none of the next 59 frames saves, whatever the mouth does, so two
  saves are at least 60 frames apart.
\<close>

theorem save_debounce:
  "snd (save_run \<lparr>save_cooldown = c, mouth_open_count = 0\<rparr> (replicate 9 True @ [False]))
     = replicate 10 False \<and>
   snd (save_run save_state_init (replicate 10 True)) = replicate 9 False @ [True] \<and>
   (save_step st b = (st', True) \<and> length bs < 60 \<longrightarrow>
      snd (save_run st' bs) = replicate (length bs) False)"
proof (intro conjI impI)
  show "snd (save_run \<lparr>save_cooldown = c, mouth_open_count = 0\<rparr> (replicate 9 True @ [False]))
          = replicate 10 False"
    unfolding nine_open_one_closed
    by (simp add: save_step_def Let_def MOUTH_OPEN_THRESHOLD_def numeral_eq_Suc)
next
  show "snd (save_run save_state_init (replicate 10 True)) = replicate 9 False @ [True]"
    unfolding ten_open
    by (simp add: save_step_def save_state_init_def Let_def MOUTH_OPEN_THRESHOLD_def
        SAVE_COOLDOWN_FRAMES_def numeral_eq_Suc)
next
  assume a: "save_step st b = (st', True) \<and> length bs < 60"
  then have "save_cooldown st' = 60"
    by (auto simp: save_step_def Let_def SAVE_COOLDOWN_FRAMES_def split: if_splits)
  with a show "snd (save_run st' bs) = replicate (length bs) False"
    by (intro save_run_cooldown) simp
qed

theorem save_debounce_witness:
  "save_step \<lparr>save_cooldown = 0, mouth_open_count = 9\<rparr> True
     = (\<lparr>save_cooldown = 60, mouth_open_count = 0\<rparr>, True) \<and>
   length (replicate 59 True) < 60 \<and>
   snd (save_run \<lparr>save_cooldown = 60, mouth_open_count = 0\<rparr> (replicate 59 True))
     = replicate 59 False"
proof -
  have s: "save_step \<lparr>save_cooldown = 0, mouth_open_count = 9\<rparr> True
             = (\<lparr>save_cooldown = 60, mouth_open_count = 0\<rparr>, True)"
    by (simp add: save_step_def Let_def MOUTH_OPEN_THRESHOLD_def SAVE_COOLDOWN_FRAMES_def)
  have l: "length (replicate 59 True) < 60" by simp
  from save_debounce [of _ "\<lparr>save_cooldown = 0, mouth_open_count = 9\<rparr>" True
      "\<lparr>save_cooldown = 60, mouth_open_count = 0\<rparr>" "replicate 59 True"] s l
  show ?thesis by simp
qed

text \<open>
  The bound is met: with the mouth held open after a save, the 60th frame after it saves
  again.
\<close>

lemma save_run_cooldown_open:
  "0 < n \<Longrightarrow> int n = save_cooldown st \<Longrightarrow> 0 \<le> mouth_open_count st \<Longrightarrow>
     10 \<le> mouth_open_count st + int n \<Longrightarrow>
     snd (save_run st (replicate n True)) = replicate (n - 1) False @ [True]"
proof (induction n arbitrary: st)
  case 0
  then show ?case by simp
next
  case (Suc n)
  show ?case
  proof (cases "n = 0")
    case True
    with Suc.prems show ?thesis
      by (simp add: save_step_def Let_def MOUTH_OPEN_THRESHOLD_def)
  next
    case False
    let ?st1 = "\<lparr>save_cooldown = save_cooldown st - 1,
                 mouth_open_count = mouth_open_count st + 1\<rparr>"
    have step: "save_step st True = (?st1, False)"
      using Suc.prems False by (simp add: save_step_def Let_def)
    have ih: "snd (save_run ?st1 (replicate n True)) = replicate (n - 1) False @ [True]"
      using Suc.prems False by (intro Suc.IH) simp_all
    have rep: "replicate n False = False # replicate (n - 1) False"
      using False by (cases n) simp_all
    obtain st2 events where r: "save_run ?st1 (replicate n True) = (st2, events)"
      by (cases "save_run ?st1 (replicate n True)")
    show ?thesis
      using step r ih rep by simp
  qed
qed

lemma second_save_on_frame_60:
  "snd (save_run \<lparr>save_cooldown = 60, mouth_open_count = 0\<rparr> (replicate 60 True))
     = replicate 59 False @ [True]"
  using save_run_cooldown_open [of 60 "\<lparr>save_cooldown = 60, mouth_open_count = 0\<rparr>"]
  by simp

section \<open>Properties of the painter\<close>

subsection \<open>The layout built by the constructor\<close>

lemma init_toggle_row:
  "b \<in> set (toggle_buttons (PainterUI_init w h)) \<Longrightarrow> el_y b = 20 \<and> el_h b = 50"
  by (auto simp: PainterUI_init_def Let_def UIElement_init_def)

lemma init_color_row:
  "b \<in> set (colors (PainterUI_init w h)) \<Longrightarrow> el_y b = 80 \<and> el_h b = 50"
  by (auto simp: PainterUI_init_def Let_def UIElement_init_def)

lemma init_pen_row:
  "b \<in> set (pen_sizes (PainterUI_init w h)) \<Longrightarrow> el_y b = 140 \<and> el_h b = 50"
  by (auto simp: PainterUI_init_def Let_def UIElement_init_def)

lemma init_shape_row:
  "b \<in> set (shapes (PainterUI_init w h)) \<Longrightarrow> el_y b = 200 \<and> el_h b = 50"
  by (auto simp: PainterUI_init_def Let_def UIElement_init_def)

lemma init_canvas_zone:
  "el_x (canvas (PainterUI_init w h)) = 50 \<and> el_y (canvas (PainterUI_init w h)) = 130 \<and>
   el_w (canvas (PainterUI_init w h)) = w - 100 \<and> el_h (canvas (PainterUI_init w h)) = 1780"
  by (simp add: PainterUI_init_def Let_def UIElement_init_def)


subsection \<open>The blocks of handle\_interactions\<close>

lemma check_toggle_buttons_index_down [simp]:
  "check_toggle_buttons ui flags px py False = (ui, flags)"
  by (simp add: check_toggle_buttons_def)

lemma color_selection_index_down [simp]:
  "color_selection ui flags px py False = (ui, flags)"
  by (simp add: color_selection_def)

lemma pen_size_selection_index_down [simp]:
  "pen_size_selection ui flags px py False = Inr (ui, flags)"
  by (simp add: pen_size_selection_def)

lemma shape_selection_index_down [simp]:
  "shape_selection ui px py False = ui"
  by (simp add: shape_selection_def)

lemma drawing_mode_check_index_down [simp]:
  "drawing_mode_check ui flags px py False thumb_up = flags"
  by (simp add: drawing_mode_check_def)

lemma shape_drawing_check_frame:
  assumes "shape_drawing_check ui flags px py thumb_up = (ui', r)"
  shows "current_color ui' = current_color ui"
    and "current_brush_size ui' = current_brush_size ui"
    and "hide_colors ui' = hide_colors ui"
    and "hide_pen_sizes ui' = hide_pen_sizes ui"
    and "hide_shapes ui' = hide_shapes ui"
    and "zones ui' = zones ui"
    and "i_color_changed r = i_color_changed flags"
    and "i_brush_size_changed r = i_brush_size_changed flags"
    and "i_clear_canvas r = i_clear_canvas flags"
    and "i_save_drawing r = i_save_drawing flags"
    and "i_drawing_mode r = i_drawing_mode flags"
  using assms by (auto simp: shape_drawing_check_def zones_def split: if_splits)



text \<open>
  C9. When the index entry of a 5-entry finger vector is false, \<open>handle_interactions\<close>
  returns normally, leaves the current colour, the brush size and the three visibility
  flags as they were, and reports no colour change, no brush-size change, no clear, no
  save and no freehand drawing: only the thumb-gated shape state can change.
\<close>

theorem index_down_frame:
  "length fingers_up = 5 \<and> \<not> fingers_up ! 1 \<longrightarrow>
     (\<exists>ui' r. handle_interactions ui px py fingers_up = Inr (ui', r) \<and>
        current_color ui' = current_color ui \<and>
        current_brush_size ui' = current_brush_size ui \<and>
        hide_colors ui' = hide_colors ui \<and>
        hide_pen_sizes ui' = hide_pen_sizes ui \<and>
        hide_shapes ui' = hide_shapes ui \<and>
        \<not> i_color_changed r \<and> \<not> i_brush_size_changed r \<and> \<not> i_clear_canvas r \<and>
        \<not> i_save_drawing r \<and> \<not> i_drawing_mode r)"
proof
  assume a: "length fingers_up = 5 \<and> \<not> fingers_up ! 1"
  then have g1: "getitem fingers_up 1 = Inr False"
    and g0: "getitem fingers_up 0 = Inr (fingers_up ! 0)"
    by (simp_all add: getitem_def)
  have hi: "handle_interactions ui px py fingers_up =
              Inr (shape_drawing_check ui interactions_init px py (fingers_up ! 0))"
    using g1 g0 by (simp add: handle_interactions_def)
  obtain ui' r where sd:
      "shape_drawing_check ui interactions_init px py (fingers_up ! 0) = (ui', r)"
    by (cases "shape_drawing_check ui interactions_init px py (fingers_up ! 0)")
  from shape_drawing_check_frame [OF sd] hi sd
  show "\<exists>ui' r. handle_interactions ui px py fingers_up = Inr (ui', r) \<and>
        current_color ui' = current_color ui \<and>
        current_brush_size ui' = current_brush_size ui \<and>
        hide_colors ui' = hide_colors ui \<and>
        hide_pen_sizes ui' = hide_pen_sizes ui \<and>
        hide_shapes ui' = hide_shapes ui \<and>
        \<not> i_color_changed r \<and> \<not> i_brush_size_changed r \<and> \<not> i_clear_canvas r \<and>
        \<not> i_save_drawing r \<and> \<not> i_drawing_mode r"
    by (simp add: interactions_init_def)
qed

theorem index_down_frame_witness:
  "length [True, False, False, False, False] = 5 \<and>
   \<not> [True, False, False, False, False] ! 1 \<and>
   (\<exists>ui' r. handle_interactions (PainterUI_init 1280 720) 600 400
               [True, False, False, False, False] = Inr (ui', r) \<and>
        current_color ui' = current_color (PainterUI_init 1280 720) \<and>
        current_brush_size ui' = current_brush_size (PainterUI_init 1280 720) \<and>
        hide_colors ui' = hide_colors (PainterUI_init 1280 720) \<and>
        hide_pen_sizes ui' = hide_pen_sizes (PainterUI_init 1280 720) \<and>
        hide_shapes ui' = hide_shapes (PainterUI_init 1280 720) \<and>
        \<not> i_color_changed r \<and> \<not> i_brush_size_changed r \<and> \<not> i_clear_canvas r \<and>
        \<not> i_save_drawing r \<and> \<not> i_drawing_mode r)"
  using index_down_frame [of "[True, False, False, False, False]" "PainterUI_init 1280 720"
      600 400]
  by simp

section \<open>Properties of the main loop\<close>

subsection \<open>A pointer on the canvas, below the button rows\<close>

text \<open>
  With the constructor's layout, a pointer with \<open>250 \<le> y\<close> is below every button row; if
  it is inside the canvas zone, \<open>handle_interactions\<close> reduces to its two canvas blocks.
\<close>

lemma handle_interactions_below_buttons:
  assumes z: "zones ui = zones (PainterUI_init w h)"
    and len: "length fingers_up = 5"
    and py: "250 \<le> py"
  shows "handle_interactions ui px py fingers_up =
           Inr (shape_drawing_check ui
                  (drawing_mode_check ui interactions_init px py
                     (fingers_up ! 1) (fingers_up ! 0))
                  px py (fingers_up ! 0))"
proof -
  from z have eq: "toggle_buttons ui = toggle_buttons (PainterUI_init w h)"
      "colors ui = colors (PainterUI_init w h)"
      "pen_sizes ui = pen_sizes (PainterUI_init w h)"
      "shapes ui = shapes (PainterUI_init w h)"
    by (simp_all add: zones_def)
  have g1: "getitem fingers_up 1 = Inr (fingers_up ! 1)"
    and g0: "getitem fingers_up 0 = Inr (fingers_up ! 0)"
    using len by (simp_all add: getitem_def)
  have no_toggle: "find (\<lambda>btn. is_over btn px py) (toggle_buttons ui) = None"
    using py by (auto simp: find_None_iff eq is_over_def dest: init_toggle_row)
  have no_color: "find (\<lambda>btn. is_over btn px py) (colors ui) = None"
    using py by (auto simp: find_None_iff eq is_over_def dest: init_color_row)
  have no_pen: "find (\<lambda>btn. is_over btn px py) (pen_sizes ui) = None"
    using py by (auto simp: find_None_iff eq is_over_def dest: init_pen_row)
  have no_shape: "find (\<lambda>btn. is_over btn px py) (shapes ui) = None"
    using py by (auto simp: find_None_iff eq is_over_def dest: init_shape_row)
  have s1: "check_toggle_buttons ui flags px py b = (ui, flags)" for flags b
    by (simp add: check_toggle_buttons_def no_toggle)
  have s2: "color_selection ui flags px py b = (ui, flags)" for flags b
    by (simp add: color_selection_def no_color)
  have s3: "pen_size_selection ui flags px py b = Inr (ui, flags)" for flags b
    by (simp add: pen_size_selection_def no_pen)
  have s4: "shape_selection ui px py b = ui" for b
    by (simp add: shape_selection_def no_shape)
  show ?thesis
    using g1 g0 by (simp add: handle_interactions_def s1 s2 s3 s4)
qed

lemma init_layout_kept:
  "zones (ui\<lparr>hide_colors := a\<rparr>) = zones ui"
  "zones (ui\<lparr>hide_pen_sizes := a\<rparr>) = zones ui"
  "zones (ui\<lparr>hide_shapes := a\<rparr>) = zones ui"
  "zones (ui\<lparr>current_shape := s\<rparr>) = zones ui"
  "zones (ui\<lparr>shape_start_point := p\<rparr>) = zones ui"
  "zones (ui\<lparr>shape_drawing_mode := a\<rparr>) = zones ui"
  "zones (ui\<lparr>current_color := c\<rparr>) = zones ui"
  "zones (ui\<lparr>current_brush_size := n\<rparr>) = zones ui"
  by (simp_all add: zones_def)

lemma on_init_canvas:
  "zones ui = zones (PainterUI_init w h) \<Longrightarrow>
     is_over (canvas ui) px py = ((50 < px \<and> px < w - 50) \<and> (130 < py \<and> py < 1910))"
  by (auto simp: zones_def is_over_def init_canvas_zone)

subsection \<open>The stroke guard\<close>

text \<open>
  C6. A frame whose previous draw point is the sentinel \<open>(0, 0)\<close> appends no freehand
  segment, whatever the destination point: \<open>draw_step\<close> outside the shape branch returns
  the state as it got it, and the whole frame, when it neither clears nor draws a shape,
  changes only the painter state and the previous point, not the store or the canvas
  binding. A frame with no pointer (or with no finger vector) resets the previous draw
  point to \<open>(0, 0)\<close> and changes nothing else.
\<close>

theorem stroke_gap_guard:
  "(previous_xy st = (0, 0) \<and>
    \<not> (i_shape_drawing_mode flags \<and> shape_start_point (painter_ui st) \<noteq> None) \<longrightarrow>
      draw_step flags st dest = Inr st) \<and>
   (pointing_finger = None \<or> fingers_up0 = [] \<longrightarrow>
      pointer_phase st pointing_finger fingers_up0 smoothed0
        = Inr (st\<lparr>previous_xy := (0, 0)\<rparr>)) \<and>
   (previous_xy st = (0, 0) \<and> fingers_up \<noteq> [] \<and>
    handle_interactions (painter_ui st) (fst dest) (snd dest) fingers_up = Inr (ui', flags') \<and>
    \<not> i_clear_canvas flags' \<and>
    \<not> (i_shape_drawing_mode flags' \<and> shape_start_point ui' \<noteq> None) \<longrightarrow>
      pointer_phase st (Some p) fingers_up dest
        = Inr (st\<lparr>painter_ui := ui', previous_xy := dest\<rparr>))"
proof (intro conjI impI)
  assume "previous_xy st = (0, 0) \<and>
    \<not> (i_shape_drawing_mode flags \<and> shape_start_point (painter_ui st) \<noteq> None)"
  then show "draw_step flags st dest = Inr st"
    by (auto simp: draw_step_def split: option.splits)
next
  assume "pointing_finger = None \<or> fingers_up0 = []"
  then show "pointer_phase st pointing_finger fingers_up0 smoothed0
               = Inr (st\<lparr>previous_xy := (0, 0)\<rparr>)"
    by (auto simp: pointer_phase_def)
next
  assume a: "previous_xy st = (0, 0) \<and> fingers_up \<noteq> [] \<and>
    handle_interactions (painter_ui st) (fst dest) (snd dest) fingers_up = Inr (ui', flags') \<and>
    \<not> i_clear_canvas flags' \<and>
    \<not> (i_shape_drawing_mode flags' \<and> shape_start_point ui' \<noteq> None)"
  then have "draw_step flags' (clear_step flags' (st\<lparr>painter_ui := ui'\<rparr>)) dest
               = Inr (st\<lparr>painter_ui := ui'\<rparr>)"
    by (auto simp: draw_step_def clear_step_def split: option.splits)
  with a show "pointer_phase st (Some p) fingers_up dest
                 = Inr (st\<lparr>painter_ui := ui', previous_xy := dest\<rparr>)"
    by (simp add: pointer_phase_def)
qed

lemma freehand_frame_flags:
  "handle_interactions (PainterUI_init 1280 720) 600 400 [False, True, False, False, False]
     = Inr (PainterUI_init 1280 720, interactions_init\<lparr>i_drawing_mode := True\<rparr>)"
proof -
  have z: "zones (PainterUI_init 1280 720) = zones (PainterUI_init 1280 720)" by simp
  have c: "is_over (canvas (PainterUI_init 1280 720)) 600 400"
    by (simp add: on_init_canvas [OF z])
  have hs: "hide_shapes (PainterUI_init 1280 720)"
    by (simp add: PainterUI_init_def Let_def)
  show ?thesis
    using c hs
    by (simp add: handle_interactions_below_buttons [OF z]
        drawing_mode_check_def shape_drawing_check_def)
qed

theorem stroke_gap_guard_witness:
  "previous_xy main_state_init = (0, 0) \<and>
   \<not> (i_shape_drawing_mode (interactions_init\<lparr>i_drawing_mode := True\<rparr>) \<and>
       shape_start_point (painter_ui main_state_init) \<noteq> None) \<and>
   draw_step (interactions_init\<lparr>i_drawing_mode := True\<rparr>) main_state_init (600, 400)
     = Inr main_state_init \<and>
   pointer_phase main_state_init None [] (0, 0)
     = Inr (main_state_init\<lparr>previous_xy := (0, 0)\<rparr>) \<and>
   [False, True, False, False, False] \<noteq> [] \<and>
   handle_interactions (painter_ui main_state_init) (fst (600, 400)) (snd (600, 400))
       [False, True, False, False, False]
     = Inr (PainterUI_init 1280 720, interactions_init\<lparr>i_drawing_mode := True\<rparr>) \<and>
   \<not> i_clear_canvas (interactions_init\<lparr>i_drawing_mode := True\<rparr>) \<and>
   pointer_phase main_state_init (Some (640, 410)) [False, True, False, False, False] (600, 400)
     = Inr (main_state_init\<lparr>painter_ui := PainterUI_init 1280 720,
                            previous_xy := (600, 400)\<rparr>)"
proof -
  let ?flags = "interactions_init\<lparr>i_drawing_mode := True\<rparr>"
  have p: "previous_xy main_state_init = (0, 0)"
    by (simp add: main_state_init_def)
  have ui: "painter_ui main_state_init = PainterUI_init 1280 720"
    by (simp add: main_state_init_def)
  have sp: "shape_start_point (PainterUI_init 1280 720) = None"
    by (simp add: PainterUI_init_def Let_def)
  have f: "\<not> i_shape_drawing_mode ?flags" "\<not> i_clear_canvas ?flags"
    by (simp_all add: interactions_init_def)
  have hi: "handle_interactions (painter_ui main_state_init) (fst (600, 400)) (snd (600, 400))
              [False, True, False, False, False] = Inr (PainterUI_init 1280 720, ?flags)"
    by (simp add: ui freehand_frame_flags)
  from stroke_gap_guard [of main_state_init ?flags "(600, 400)" None "[]" "(0, 0)"
      "[False, True, False, False, False]" "PainterUI_init 1280 720" ?flags "(640, 410)"]
    p ui sp f hi
  show ?thesis by simp
qed

subsection \<open>The layout is never reassigned\<close>

lemma check_toggle_buttons_zones:
  "check_toggle_buttons ui flags px py b = (ui', r) \<Longrightarrow> zones ui' = zones ui"
  by (auto simp: check_toggle_buttons_def zones_def Let_def split: if_splits option.splits)

lemma color_selection_zones:
  "color_selection ui flags px py b = (ui', r) \<Longrightarrow> zones ui' = zones ui"
  by (auto simp: color_selection_def zones_def split: if_splits option.splits)

lemma pen_size_selection_zones:
  "pen_size_selection ui flags px py b = Inr (ui', r) \<Longrightarrow> zones ui' = zones ui"
  by (auto simp: pen_size_selection_def zones_def split: if_splits option.splits sum.splits)

lemma shape_selection_zones: "zones (shape_selection ui px py b) = zones ui"
  by (auto simp: shape_selection_def zones_def split: option.splits)

lemma handle_interactions_zones:
  assumes "handle_interactions ui px py fingers_up = Inr (ui', r)"
  shows "zones ui' = zones ui"
proof -
  from assms obtain index_up thumb_up where g: "getitem fingers_up 1 = Inr index_up"
      "getitem fingers_up 0 = Inr thumb_up"
    by (auto simp: handle_interactions_def split: sum.splits)
  obtain ui1 f1 where s1: "check_toggle_buttons ui interactions_init px py index_up = (ui1, f1)"
    by (cases "check_toggle_buttons ui interactions_init px py index_up")
  obtain ui2 f2 where s2: "color_selection ui1 f1 px py index_up = (ui2, f2)"
    by (cases "color_selection ui1 f1 px py index_up")
  from assms g s1 s2 obtain ui3 f3 where
    s3: "pen_size_selection ui2 f2 px py index_up = Inr (ui3, f3)"
    and s6: "shape_drawing_check (shape_selection ui3 px py index_up)
               (drawing_mode_check (shape_selection ui3 px py index_up) f3 px py
                  index_up thumb_up)
               px py thumb_up = (ui', r)"
    by (auto simp: handle_interactions_def Let_def split: sum.splits)
  from shape_drawing_check_frame(6) [OF s6]
  have "zones ui' = zones ui3" by (simp add: shape_selection_zones)
  also have "\<dots> = zones ui2" by (rule pen_size_selection_zones [OF s3])
  also have "\<dots> = zones ui1" by (rule color_selection_zones [OF s2])
  also have "\<dots> = zones ui" by (rule check_toggle_buttons_zones [OF s1])
  finally show ?thesis .
qed

lemma draw_step_painter_ui:
  "draw_step flags st smoothed = Inr st' \<Longrightarrow> painter_ui st' = painter_ui st"
  by (auto simp: draw_step_def Let_def split: option.splits if_splits sum.splits)

lemma pointer_phase_zones:
  assumes "pointer_phase st pointing_finger fingers_up smoothed = Inr st'"
  shows "zones (painter_ui st') = zones (painter_ui st)"
proof (cases "pointing_finger \<noteq> None \<and> fingers_up \<noteq> []")
  case False
  with assms show ?thesis by (auto simp: pointer_phase_def)
next
  case True
  with assms obtain ui flags st1 where
    hi: "handle_interactions (painter_ui st) (fst smoothed) (snd smoothed) fingers_up
           = Inr (ui, flags)"
    and ds: "draw_step flags (clear_step flags (st\<lparr>painter_ui := ui\<rparr>)) smoothed = Inr st1"
    and st': "st' = st1\<lparr>previous_xy := smoothed\<rparr>"
    by (auto simp: pointer_phase_def split: sum.splits)
  from draw_step_painter_ui [OF ds] have "painter_ui st1 = ui"
    by (simp add: clear_step_def)
  with st' handle_interactions_zones [OF hi] show ?thesis by simp
qed

text \<open>
  Every state the loop reaches from its initial state has the zones the constructor
  built for the 1280 by 720 frame.
\<close>

lemma pointer_frames_zones:
  "pointer_frames st frames = Inr st' \<Longrightarrow> zones (painter_ui st') = zones (painter_ui st)"
proof (induction frames arbitrary: st)
  case Nil
  then show ?case by simp
next
  case (Cons f frames)
  obtain pf fu sm where f: "f = (pf, fu, sm)" by (cases f)
  from Cons.prems f obtain st1 where
    p: "pointer_phase st pf fu sm = Inr st1" and r: "pointer_frames st1 frames = Inr st'"
    by (auto split: sum.splits)
  from Cons.IH [OF r] pointer_phase_zones [OF p] show ?case by simp
qed

lemma reachable_layout:
  "pointer_frames main_state_init frames = Inr st \<Longrightarrow>
     zones (painter_ui st) = zones (PainterUI_init 1280 720)"
  using pointer_frames_zones [of main_state_init frames st]
  by (simp add: main_state_init_def)

subsection \<open>The shape gesture\<close>

text \<open>
  The run below starts from the initial state of the loop. The pointer, index finger only,
  goes to the "Shapes" toggle; the hand is lost for a frame; the pointer, index only, goes
  to the "Circle" button; then, on the canvas, the thumb rises at (600, 400), the hand
  moves to (700, 500) with the thumb still up, and the thumb is lowered at (710, 500).
\<close>

lemma frame_shapes_toggle:
  "handle_interactions (PainterUI_init 1280 720) 240 45 [False, True, False, False, False]
     = Inr ((PainterUI_init 1280 720)\<lparr>hide_shapes := False\<rparr>, interactions_init)"
  by (simp add: handle_interactions_def getitem_def check_toggle_buttons_def
      color_selection_def pen_size_selection_def shape_selection_def drawing_mode_check_def
      shape_drawing_check_def PainterUI_init_def Let_def UIElement_init_def is_over_def
      color_palette_def)

lemma frame_circle_button:
  "handle_interactions ((PainterUI_init 1280 720)\<lparr>hide_shapes := False\<rparr>) 110 225
       [False, True, False, False, False]
     = Inr ((PainterUI_init 1280 720)
              \<lparr>hide_shapes := False, current_shape := Some ''Circle'',
               shape_drawing_mode := False\<rparr>,
            interactions_init\<lparr>i_drawing_mode := True\<rparr>)"
  by (simp add: handle_interactions_def getitem_def check_toggle_buttons_def
      color_selection_def pen_size_selection_def shape_selection_def drawing_mode_check_def
      shape_drawing_check_def PainterUI_init_def Let_def UIElement_init_def is_over_def
      color_palette_def shape_selected_def)

lemma frame_thumb_rises:
  assumes "ui = (PainterUI_init 1280 720)
              \<lparr>hide_shapes := False, current_shape := Some ''Circle'',
               shape_drawing_mode := False\<rparr>"
  shows "handle_interactions ui 600 400 [True, True, False, False, False]
     = Inr (ui\<lparr>shape_start_point := Some (600, 400), shape_drawing_mode := True\<rparr>,
            interactions_init\<lparr>i_shape_drawing_mode := True\<rparr>)"
proof -
  have z: "zones ui = zones (PainterUI_init 1280 720)"
    by (simp add: assms zones_def)
  have c: "is_over (canvas ui) 600 400"
    by (simp add: on_init_canvas [OF z])
  have s: "\<not> hide_shapes ui" "shape_selected (current_shape ui)" "\<not> shape_drawing_mode ui"
    by (simp_all add: assms shape_selected_def)
  show ?thesis
    using c s
    by (simp add: handle_interactions_below_buttons [OF z]
        drawing_mode_check_def shape_drawing_check_def)
qed

lemma frame_thumb_held:
  assumes "ui = (PainterUI_init 1280 720)
              \<lparr>hide_shapes := False, current_shape := Some ''Circle'',
               shape_drawing_mode := False,
               shape_start_point := Some (600, 400), shape_drawing_mode := True\<rparr>"
  shows "handle_interactions ui 700 500 [True, True, False, False, False]
     = Inr (ui, interactions_init)"
proof -
  have z: "zones ui = zones (PainterUI_init 1280 720)"
    by (simp add: assms zones_def)
  have c: "is_over (canvas ui) 700 500"
    by (simp add: on_init_canvas [OF z])
  have s: "\<not> hide_shapes ui" "shape_selected (current_shape ui)" "shape_drawing_mode ui"
    by (simp_all add: assms shape_selected_def)
  show ?thesis
    using c s
    by (simp add: handle_interactions_below_buttons [OF z]
        drawing_mode_check_def shape_drawing_check_def)
qed

lemma frame_thumb_lowered:
  assumes "ui = (PainterUI_init 1280 720)
              \<lparr>hide_shapes := False, current_shape := Some ''Circle'',
               shape_drawing_mode := False,
               shape_start_point := Some (600, 400), shape_drawing_mode := True\<rparr>"
  shows "handle_interactions ui 710 500 [False, True, False, False, False]
     = Inr (ui\<lparr>shape_drawing_mode := False, current_shape := None\<rparr>,
            interactions_init\<lparr>i_drawing_mode := True\<rparr>)"
proof -
  have z: "zones ui = zones (PainterUI_init 1280 720)"
    by (simp add: assms zones_def)
  have c: "is_over (canvas ui) 710 500"
    by (simp add: on_init_canvas [OF z])
  have s: "\<not> hide_shapes ui" "shape_selected (current_shape ui)" "shape_drawing_mode ui"
    by (simp_all add: assms shape_selected_def)
  show ?thesis
    using c s
    by (simp add: handle_interactions_below_buttons [OF z]
        drawing_mode_check_def shape_drawing_check_def)
qed

lemma circle_of_no_extent:
  "current_shape ui = Some ''Circle'' \<Longrightarrow>
     draw_shape ui img (600, 400) (600, 400)
       = Inr (img @ [Circle (600, 400) 0 (current_color ui) (current_brush_size ui)])"
  by (simp add: draw_shape_def int_truediv_2_def round_to_double_def float_overflows_def
      int_of_float_def Let_def)

text \<open>
  C1, on the code. In the frame where the thumb rises, the shape is rendered on a copy of
  the canvas array (the old array, at address 0, is not written), and the variable
  \<open>canvas\<close> is then bound to that copy: the persistent canvas holds the shape from the
  first preview frame on, a circle of radius 0 because the end point is the anchor itself.
  While the thumb stays up nothing more is rendered, and the frame where the thumb is
  lowered draws no shape: it appends a freehand segment, clears the selected shape and
  leaves the radius-0 circle as it was.
\<close>

theorem shape_preview_is_bound_to_canvas:
  "(case pointer_frames main_state_init
           [(Some (240, 45), [False, True, False, False, False], (240, 45)),
            (None, [], (0, 0)),
            (Some (110, 225), [False, True, False, False, False], (110, 225)),
            (Some (600, 400), [True, True, False, False, False], (600, 400))] of
      Inl e \<Rightarrow> False
    | Inr s \<Rightarrow>
        canvas_ref s = 1 \<and> heap s 0 = [] \<and>
        heap s (canvas_ref s) = [Circle (600, 400) 0 (50, 120, 220) 5] \<and>
        shape_drawing_mode (painter_ui s)) \<and>
   (case pointer_frames main_state_init
           [(Some (240, 45), [False, True, False, False, False], (240, 45)),
            (None, [], (0, 0)),
            (Some (110, 225), [False, True, False, False, False], (110, 225)),
            (Some (600, 400), [True, True, False, False, False], (600, 400)),
            (Some (700, 500), [True, True, False, False, False], (700, 500))] of
      Inl e \<Rightarrow> False
    | Inr s \<Rightarrow>
        canvas_ref s = 1 \<and>
        heap s (canvas_ref s) = [Circle (600, 400) 0 (50, 120, 220) 5] \<and>
        shape_drawing_mode (painter_ui s)) \<and>
   (case pointer_frames main_state_init
           [(Some (240, 45), [False, True, False, False, False], (240, 45)),
            (None, [], (0, 0)),
            (Some (110, 225), [False, True, False, False, False], (110, 225)),
            (Some (600, 400), [True, True, False, False, False], (600, 400)),
            (Some (700, 500), [True, True, False, False, False], (700, 500)),
            (Some (710, 500), [False, True, False, False, False], (710, 500))] of
      Inl e \<Rightarrow> False
    | Inr s \<Rightarrow>
        canvas_ref s = 1 \<and>
        heap s (canvas_ref s) =
          [Circle (600, 400) 0 (50, 120, 220) 5,
           Line (700, 500) (710, 500) (50, 120, 220) 5] \<and>
        \<not> shape_drawing_mode (painter_ui s) \<and>
        current_shape (painter_ui s) = None)"
proof -
  let ?idx = "[False, True, False, False, False]"
  let ?both = "[True, True, False, False, False]"
  let ?ui_a = "(PainterUI_init 1280 720)\<lparr>hide_shapes := False\<rparr>"
  let ?ui_b = "(PainterUI_init 1280 720)
                 \<lparr>hide_shapes := False, current_shape := Some ''Circle'',
                  shape_drawing_mode := False\<rparr>"
  let ?ui_c = "(PainterUI_init 1280 720)
                 \<lparr>hide_shapes := False, current_shape := Some ''Circle'',
                  shape_drawing_mode := False,
                  shape_start_point := Some (600, 400), shape_drawing_mode := True\<rparr>"
  let ?ui_d = "?ui_c\<lparr>shape_drawing_mode := False, current_shape := None\<rparr>"
  let ?s1 = "main_state_init\<lparr>painter_ui := ?ui_a, previous_xy := (240, 45)\<rparr>"
  let ?s2 = "?s1\<lparr>previous_xy := (0, 0)\<rparr>"
  let ?s3 = "?s2\<lparr>painter_ui := ?ui_b, previous_xy := (110, 225)\<rparr>"
  let ?s4 = "?s3\<lparr>painter_ui := ?ui_c,
                  heap := (heap ?s3)(1 := [Circle (600, 400) 0 (50, 120, 220) 5]),
                  next_addr := 2, canvas_ref := 1, previous_xy := (600, 400)\<rparr>"
  let ?s5 = "?s4\<lparr>previous_xy := (700, 500)\<rparr>"
  let ?s6 = "?s5\<lparr>painter_ui := ?ui_d,
                  heap := (heap ?s5)(1 := [Circle (600, 400) 0 (50, 120, 220) 5,
                                            Line (700, 500) (710, 500) (50, 120, 220) 5]),
                  previous_xy := (710, 500)\<rparr>"
  have col: "current_color (PainterUI_init 1280 720) = (50, 120, 220)"
      "current_brush_size (PainterUI_init 1280 720) = 5"
      "shape_start_point (PainterUI_init 1280 720) = None"
    by (simp_all add: PainterUI_init_def Let_def color_palette_def)
  have p1: "pointer_phase main_state_init (Some (240, 45)) ?idx (240, 45) = Inr ?s1"
    by (simp add: pointer_phase_def main_state_init_def frame_shapes_toggle
        clear_step_def draw_step_def interactions_init_def)
  have p2: "pointer_phase ?s1 None [] (0, 0) = Inr ?s2"
    by (simp add: pointer_phase_def)
  have p3: "pointer_phase ?s2 (Some (110, 225)) ?idx (110, 225) = Inr ?s3"
    by (simp add: pointer_phase_def main_state_init_def frame_circle_button
        clear_step_def draw_step_def interactions_init_def)
  have p4: "pointer_phase ?s3 (Some (600, 400)) ?both (600, 400) = Inr ?s4"
    by (simp add: pointer_phase_def main_state_init_def frame_thumb_rises
        clear_step_def draw_step_def interactions_init_def circle_of_no_extent col Let_def)
  have p5: "pointer_phase ?s4 (Some (700, 500)) ?both (700, 500) = Inr ?s5"
    by (simp add: pointer_phase_def main_state_init_def frame_thumb_held
        clear_step_def draw_step_def interactions_init_def)
  have p6: "pointer_phase ?s5 (Some (710, 500)) ?idx (710, 500) = Inr ?s6"
    by (simp add: pointer_phase_def main_state_init_def frame_thumb_lowered
        clear_step_def draw_step_def interactions_init_def col fun_upd_twist)
  have r4: "pointer_frames main_state_init
              [(Some (240, 45), ?idx, (240, 45)), (None, [], (0, 0)),
               (Some (110, 225), ?idx, (110, 225)), (Some (600, 400), ?both, (600, 400))]
            = Inr ?s4"
    using p1 p2 p3 p4 by simp
  have r5: "pointer_frames main_state_init
              [(Some (240, 45), ?idx, (240, 45)), (None, [], (0, 0)),
               (Some (110, 225), ?idx, (110, 225)), (Some (600, 400), ?both, (600, 400)),
               (Some (700, 500), ?both, (700, 500))]
            = Inr ?s5"
    using p1 p2 p3 p4 p5 by simp
  have r6: "pointer_frames main_state_init
              [(Some (240, 45), ?idx, (240, 45)), (None, [], (0, 0)),
               (Some (110, 225), ?idx, (110, 225)), (Some (600, 400), ?both, (600, 400)),
               (Some (700, 500), ?both, (700, 500)), (Some (710, 500), ?idx, (710, 500))]
            = Inr ?s6"
    using p1 p2 p3 p4 p5 p6 by simp
  show ?thesis
    unfolding r4 r5 r6 by (simp add: main_state_init_def)
qed


section \<open>The hit tests of handle\_interactions\<close>












text \<open>
  In the constructor's own layout the canvas zone starts at \<open>y = 130\<close> and the rows of pen
  sizes (\<open>140 < y < 190\<close>) and shapes lie on it: a pointer on the visible pen-size button
  \<open>10\<close> sets the brush size and reports the freehand drawing in the same frame.
\<close>

lemma pen_size_button_on_canvas:
  "is_over (canvas (PainterUI_init 1280 720)) 200 160 \<and>
   handle_interactions ((PainterUI_init 1280 720)\<lparr>hide_pen_sizes := False\<rparr>) 200 160
       [False, True, False, False, False]
     = Inr ((PainterUI_init 1280 720)\<lparr>hide_pen_sizes := False, current_brush_size := 10\<rparr>,
            interactions_init\<lparr>i_brush_size_changed := True, i_drawing_mode := True\<rparr>)"
  by code_simp

section \<open>Properties of the pointer smoother\<close>

subsection \<open>Rounding to a double keeps the order\<close>

text \<open>
  \<open>round_to_double m e\<close> stands for \<open>rounded_int m * 2 ^ e\<close>, and \<open>rounded_int\<close> is monotone on
  the non-negative integers: a larger mantissa has at least as many bits, and within one
  length the quotient by the dropped power of two is monotone.
\<close>

lemma int_divmod:
  fixes a K :: int
  assumes "0 < K"
  shows "a = a div K * K + a mod K" "0 \<le> a mod K" "a mod K < K"
  using assms by simp_all

lemma float_val_round:
  "float_val (round_to_double m e) = real_of_int (rounded_int m) * 2 powr real_of_int e"
proof (cases "bitlen \<bar>m\<bar> - 53 \<le> 0")
  case True
  then have "nat (bitlen \<bar>m\<bar> - 53) = 0" by simp
  then have "rounded_int m = sgn m * \<bar>m\<bar>"
    by (simp add: rounded_int_def Let_def rhe_zero)
  then have "rounded_int m = m" by (simp add: mult_sgn_abs)
  with True show ?thesis
    by (simp add: round_to_double_def Let_def float_val_def)
next
  case False
  define k where "k = nat (bitlen \<bar>m\<bar> - 53)"
  from False have kpos: "int k = bitlen \<bar>m\<bar> - 53" by (simp add: k_def)
  have "round_to_double m e = (sgn m * round_half_even \<bar>m\<bar> k, e + int k)"
    using False by (simp add: round_to_double_def Let_def k_def)
  moreover have "2 powr real_of_int (e + int k) = 2 powr real_of_int e * 2 ^ k"
    by (simp add: powr_add powr_realpow)
  ultimately show ?thesis
    by (simp add: float_val_def rounded_int_def Let_def k_def [symmetric])
qed

lemma rhe_mono:
  assumes "0 \<le> a" "a \<le> b"
  shows "round_half_even a k \<le> round_half_even b k"
proof (cases "a div 2 ^ k = b div 2 ^ k")
  case True
  define K :: int where "K = 2 ^ k"
  define q where "q = a div K"
  define ra where "ra = a mod K"
  define rb where "rb = b mod K"
  have K: "0 < K" by (simp add: K_def)
  have "a = q * K + ra" "b = q * K + rb"
    using True int_divmod(1) [OF K, of a] int_divmod(1) [OF K, of b]
    by (simp_all add: q_def ra_def rb_def K_def)
  with assms(2) have "ra \<le> rb" by linarith
  then have "a mod 2 ^ k \<le> b mod 2 ^ k" by (simp add: ra_def rb_def K_def)
  with True show ?thesis
    by (auto simp: round_half_even_def Let_def)
next
  case False
  have "a div 2 ^ k \<le> b div 2 ^ k" using assms(2) by (simp add: zdiv_mono1)
  with False have "a div 2 ^ k + 1 \<le> b div 2 ^ k" by linarith
  with rhe_bounds [of a k] rhe_bounds [of b k] show ?thesis by linarith
qed

lemma bitlen_mono: "0 \<le> a \<Longrightarrow> a \<le> b \<Longrightarrow> bitlen a \<le> bitlen b"
  by (simp add: bitlen_def floorlog_mono)

lemma bitlen_between:
  assumes "2 ^ n \<le> a" "a < 2 ^ Suc n"
  shows "bitlen a = int n + 1"
proof -
  have e: "nat (int (Suc n)) = Suc n" "nat (int (Suc n)) - 1 = n" by simp_all
  have "0 \<le> int (Suc n) \<and> a < 2 ^ nat (int (Suc n))"
    unfolding e using assms(2) by simp
  then have "bitlen a \<le> int (Suc n)"
    by (simp only: bitlen_le_iff_power)
  moreover have "int (Suc n) \<le> 0 \<or> 2 ^ (nat (int (Suc n)) - 1) \<le> a"
    unfolding e using assms(1) by simp
  then have "int (Suc n) \<le> bitlen a"
    by (simp only: bitlen_ge_iff_power)
  ultimately show ?thesis by simp
qed

lemma div_lt_pow:
  fixes a :: int
  assumes "a < 2 ^ n * 2 ^ k"
  shows "a div 2 ^ k < 2 ^ n"
proof (rule ccontr)
  assume "\<not> a div 2 ^ k < 2 ^ n"
  then have "2 ^ n \<le> a div 2 ^ k" by simp
  then have "2 ^ n * 2 ^ k \<le> a div 2 ^ k * 2 ^ k"
    by (intro mult_right_mono) simp_all
  moreover have "a div 2 ^ k * 2 ^ k \<le> a"
  proof -
    have "(0::int) < 2 ^ k" by simp
    from int_divmod(1,2) [OF this, of a] show ?thesis by linarith
  qed
  ultimately show False using assms by linarith
qed

lemma div_ge_pow:
  fixes a :: int
  assumes "2 ^ n * 2 ^ k \<le> a"
  shows "2 ^ n \<le> a div 2 ^ k"
proof (rule ccontr)
  assume "\<not> 2 ^ n \<le> a div 2 ^ k"
  then have "a div 2 ^ k + 1 \<le> 2 ^ n" by simp
  then have "(a div 2 ^ k + 1) * 2 ^ k \<le> 2 ^ n * 2 ^ k"
    by (intro mult_right_mono) simp_all
  moreover have "a < (a div 2 ^ k + 1) * 2 ^ k"
  proof -
    have "(0::int) < 2 ^ k" by simp
    from int_divmod(1,3) [OF this, of a]
    have "a < a div 2 ^ k * 2 ^ k + 2 ^ k" by linarith
    then show ?thesis by (simp add: distrib_right)
  qed
  ultimately show False using assms by linarith
qed

lemma rounded_int_nonneg:
  assumes "0 \<le> m"
  shows "rounded_int m = round_half_even m (nat (bitlen m - 53)) * 2 ^ nat (bitlen m - 53)"
proof (cases "m = 0")
  case True
  then show ?thesis by (simp add: rounded_int_def round_half_even_def)
next
  case False
  with assms have "sgn m = 1" "\<bar>m\<bar> = m" by simp_all
  then show ?thesis by (simp add: rounded_int_def Let_def)
qed

lemma rounded_int_ge0: "0 \<le> m \<Longrightarrow> 0 \<le> rounded_int m"
proof -
  assume m: "0 \<le> m"
  have "0 \<le> m div 2 ^ nat (bitlen m - 53)"
    using m by (simp add: pos_imp_zdiv_nonneg_iff)
  with rhe_bounds [of m "nat (bitlen m - 53)"] have "0 \<le> round_half_even m (nat (bitlen m - 53))"
    by linarith
  then show ?thesis by (simp add: rounded_int_nonneg [OF m])
qed

lemma rounded_int_upper:
  assumes "0 \<le> m"
  shows "rounded_int m \<le> 2 ^ 53 * 2 ^ nat (bitlen m - 53)"
proof (cases "m = 0")
  case True
  then show ?thesis by (simp add: rounded_int_def round_half_even_def)
next
  case False
  with assms have mpos: "0 < m" by simp
  define k where "k = nat (bitlen m - 53)"
  have "nat (bitlen m) \<le> 53 + k" by (simp add: k_def)
  then have "(2::int) ^ nat (bitlen m) \<le> 2 ^ (53 + k)"
    by (intro power_increasing) simp_all
  with bitlen_pow_bounds(2) [OF mpos] have "m < 2 ^ 53 * 2 ^ k"
    by (simp add: power_add)
  then have "m div 2 ^ k < 2 ^ 53" by (rule div_lt_pow)
  with rhe_bounds [of m k] have "round_half_even m k \<le> 2 ^ 53" by linarith
  then have "round_half_even m k * 2 ^ k \<le> 2 ^ 53 * 2 ^ k"
    by (intro mult_right_mono) simp_all
  then show ?thesis by (simp add: rounded_int_nonneg [OF assms] k_def)
qed

lemma rounded_int_lower:
  assumes "0 < m" "53 \<le> bitlen m"
  shows "2 ^ 52 * 2 ^ nat (bitlen m - 53) \<le> rounded_int m"
proof -
  define k where "k = nat (bitlen m - 53)"
  have "nat (bitlen m - 1) = 52 + k" using assms(2) by (simp add: k_def)
  with bitlen_pow_bounds(1) [OF assms(1)] have "2 ^ 52 * 2 ^ k \<le> m"
    by (simp add: power_add)
  then have "2 ^ 52 \<le> m div 2 ^ k" by (rule div_ge_pow)
  with rhe_bounds [of m k] have "2 ^ 52 \<le> round_half_even m k" by linarith
  then have "2 ^ 52 * 2 ^ k \<le> round_half_even m k * 2 ^ k"
    by (intro mult_right_mono) simp_all
  then show ?thesis using assms(1) by (simp add: rounded_int_nonneg k_def)
qed

lemma rounded_int_mono:
  assumes "0 \<le> a" "a \<le> b"
  shows "rounded_int a \<le> rounded_int b"
proof -
  define ka where "ka = nat (bitlen a - 53)"
  define kb where "kb = nat (bitlen b - 53)"
  have b0: "0 \<le> b" using assms by simp
  have kab: "ka \<le> kb"
    using bitlen_mono [OF assms] by (simp add: ka_def kb_def)
  show ?thesis
  proof (cases "ka = kb")
    case True
    have "round_half_even a ka * 2 ^ ka \<le> round_half_even b ka * 2 ^ ka"
      using rhe_mono [OF assms] by (intro mult_right_mono) simp_all
    then show ?thesis
      using True by (simp add: rounded_int_nonneg [OF assms(1)] rounded_int_nonneg [OF b0]
          ka_def [symmetric] kb_def [symmetric])
  next
    case False
    with kab have lt: "ka + 1 \<le> kb" by simp
    then have "0 < kb" by simp
    then have bl: "53 \<le> bitlen b" by (simp add: kb_def)
    then have bpos: "0 < b" by (cases "b = 0") (use b0 in auto)
    have "rounded_int a \<le> 2 ^ 53 * 2 ^ ka"
      using rounded_int_upper [OF assms(1)] by (simp add: ka_def)
    also have "\<dots> = (2::int) ^ (53 + ka)" by (simp add: power_add)
    also have "\<dots> \<le> 2 ^ (52 + kb)" using lt by (intro power_increasing) simp_all
    also have "\<dots> = 2 ^ 52 * 2 ^ kb" by (simp add: power_add)
    also have "\<dots> \<le> rounded_int b"
      using rounded_int_lower [OF bpos bl] by (simp add: kb_def)
    finally show ?thesis .
  qed
qed

text \<open>
  Rounding depends on the value only, not on the exponent the mantissa is written over;
  so the rounded product and the rounded sum are monotone in the value of an argument.
\<close>

lemma rhe_exact: "round_half_even (c * 2 ^ t) t = c"
  by (simp add: round_half_even_def)

lemma rounded_int_0: "rounded_int 0 = 0"
  by (simp add: rounded_int_def)

lemma rounded_int_shift:
  assumes "0 \<le> m"
  shows "rounded_int (m * 2 ^ j) = rounded_int m * 2 ^ j"
proof (cases "m = 0")
  case True
  then show ?thesis by (simp add: rounded_int_0)
next
  case False
  with assms have mpos: "0 < m" by simp
  have mj: "0 \<le> m * 2 ^ j" using assms by simp
  have bl: "bitlen (m * 2 ^ j) = bitlen m + int j"
    using mpos by simp
  show ?thesis
  proof (cases "53 \<le> bitlen m")
    case True
    define k where "k = nat (bitlen m - 53)"
    have kj: "nat (bitlen m + int j - 53) = k + j"
      using True by (simp add: k_def nat_add_distrib)
    have d: "(m * 2 ^ j) div 2 ^ (k + j) = m div 2 ^ k"
      by (simp add: power_add)
    have r: "(m * 2 ^ j) mod 2 ^ (k + j) = (m mod 2 ^ k) * 2 ^ j"
      by (simp add: power_add mod_mult_mult2)
    have c1: "(2 ^ (k + j) < 2 * ((m mod 2 ^ k) * 2 ^ j)) = ((2::int) ^ k < 2 * (m mod 2 ^ k))"
    proof -
      have "(2::int) ^ (k + j) = 2 ^ k * 2 ^ j" by (simp add: power_add)
      moreover have "2 * ((m mod 2 ^ k) * 2 ^ j) = (2 * (m mod 2 ^ k)) * 2 ^ j" by simp
      ultimately show ?thesis
        by (simp only: mult_less_cancel_right_pos zero_less_power zero_less_numeral)
    qed
    have c2: "(2 * ((m mod 2 ^ k) * 2 ^ j) = 2 ^ (k + j)) = (2 * (m mod 2 ^ k) = (2::int) ^ k)"
    proof -
      have "(2::int) ^ (k + j) = 2 ^ k * 2 ^ j" by (simp add: power_add)
      moreover have "2 * ((m mod 2 ^ k) * 2 ^ j) = (2 * (m mod 2 ^ k)) * 2 ^ j" by simp
      ultimately show ?thesis by simp
    qed
    have "round_half_even (m * 2 ^ j) (k + j) = round_half_even m k"
      unfolding round_half_even_def Let_def d r c1 c2 ..
    then show ?thesis
      by (simp add: rounded_int_nonneg [OF mj] rounded_int_nonneg [OF assms] bl kj
          k_def [symmetric] power_add)
  next
    case False
    then have k0: "nat (bitlen m - 53) = 0" by simp
    define t where "t = nat (bitlen m + int j - 53)"
    have tj: "t \<le> j" using False by (simp add: t_def)
    have "m * 2 ^ j = (m * 2 ^ (j - t)) * 2 ^ t"
      using tj by (simp add: power_add [symmetric])
    then have "round_half_even (m * 2 ^ j) t = m * 2 ^ (j - t)"
      by (simp only: rhe_exact)
    then have "rounded_int (m * 2 ^ j) = m * 2 ^ (j - t) * 2 ^ t"
      by (simp add: rounded_int_nonneg [OF mj] bl t_def [symmetric])
    also have "\<dots> = m * 2 ^ j" using tj by (simp add: power_add [symmetric])
    finally show ?thesis
      by (simp add: rounded_int_nonneg [OF assms] k0 rhe_zero)
  qed
qed

lemma float_val_shift: "float_val (m * 2 ^ j, e) = float_val (m, e + int j)"
  by (simp add: float_val_def powr_add powr_realpow)

lemma float_val_same_exp: "(float_val (a, e) \<le> float_val (b, e)) = (a \<le> b)"
  by (simp add: float_val_def)

lemma float_val_nonneg: "(0 \<le> float_val f) = (0 \<le> fst f)"
  by (simp add: float_val_def zero_le_mult_iff)

lemma round_mono_val:
  assumes "0 \<le> m1" "float_val (m1, e1) \<le> float_val (m2, e2)"
  shows "float_val (round_to_double m1 e1) \<le> float_val (round_to_double m2 e2)"
proof -
  define e where "e = min e1 e2"
  define j1 where "j1 = nat (e1 - e)"
  define j2 where "j2 = nat (e2 - e)"
  have e1: "e1 = e + int j1" and e2: "e2 = e + int j2"
    by (simp_all add: e_def j1_def j2_def)
  have v1: "float_val (m1, e1) = float_val (m1 * 2 ^ j1, e)"
    and v2: "float_val (m2, e2) = float_val (m2 * 2 ^ j2, e)"
    by (simp_all add: float_val_shift e1 [symmetric] e2 [symmetric])
  from assms(2) have le: "m1 * 2 ^ j1 \<le> m2 * 2 ^ j2"
    by (simp only: v1 v2 float_val_same_exp)
  have n1: "0 \<le> m1 * 2 ^ j1" using assms(1) by simp
  with le have "0 \<le> m2 * 2 ^ j2" by linarith
  then have m2: "0 \<le> m2" by (simp add: zero_le_mult_iff)
  have "rounded_int (m1 * 2 ^ j1) \<le> rounded_int (m2 * 2 ^ j2)"
    using n1 le by (rule rounded_int_mono)
  then have "rounded_int m1 * 2 ^ j1 \<le> rounded_int m2 * 2 ^ j2"
    by (simp only: rounded_int_shift [OF assms(1)] rounded_int_shift [OF m2])
  then have "float_val (rounded_int m1 * 2 ^ j1, e) \<le> float_val (rounded_int m2 * 2 ^ j2, e)"
    by (simp only: float_val_same_exp)
  then have "float_val (rounded_int m1, e1) \<le> float_val (rounded_int m2, e2)"
    by (simp only: float_val_shift e1 [symmetric] e2 [symmetric])
  then show ?thesis
    unfolding float_val_round by (simp add: float_val_def)
qed

lemma round_fst_nonneg: "0 \<le> m \<Longrightarrow> 0 \<le> fst (round_to_double m e)"
proof -
  assume m: "0 \<le> m"
  have "0 \<le> float_val (round_to_double m e)"
    using rounded_int_ge0 [OF m] by (simp add: float_val_round)
  then show ?thesis by (simp only: float_val_nonneg)
qed

lemma float_add_exact:
  "float_val (fst a * 2 ^ nat (snd a - min (snd a) (snd b))
              + fst b * 2 ^ nat (snd b - min (snd a) (snd b)), min (snd a) (snd b))
     = float_val a + float_val b"
proof -
  define e where "e = min (snd a) (snd b)"
  have ea: "snd a = e + int (nat (snd a - e))" and eb: "snd b = e + int (nat (snd b - e))"
    by (simp_all add: e_def)
  have "float_val (fst a * 2 ^ nat (snd a - e) + fst b * 2 ^ nat (snd b - e), e)
          = float_val (fst a * 2 ^ nat (snd a - e), e) + float_val (fst b * 2 ^ nat (snd b - e), e)"
    by (simp add: float_val_def distrib_right)
  also have "\<dots> = float_val (fst a, snd a) + float_val (fst b, snd b)"
    by (simp only: float_val_shift ea [symmetric] eb [symmetric])
  finally show ?thesis by (simp add: e_def float_val_def)
qed

lemma float_mul_exact:
  "float_val (fst a * fst b, snd a + snd b) = float_val a * float_val b"
  by (simp add: float_val_def powr_add)

lemma float_mul_mono:
  assumes "0 \<le> fst c" "0 \<le> fst a" "float_val a \<le> float_val b"
  shows "float_val (float_mul c a) \<le> float_val (float_mul c b)"
  unfolding float_mul_def
proof (rule round_mono_val)
  show "0 \<le> fst c * fst a" using assms by simp
  have "0 \<le> float_val c" using assms(1) by (simp only: float_val_nonneg)
  then have "float_val c * float_val a \<le> float_val c * float_val b"
    using assms(3) by (rule mult_left_mono [rotated])
  then show "float_val (fst c * fst a, snd c + snd a) \<le> float_val (fst c * fst b, snd c + snd b)"
    by (simp only: float_mul_exact)
qed

lemma float_add_mono:
  assumes "0 \<le> fst c" "0 \<le> fst a" "float_val a \<le> float_val b"
  shows "float_val (float_add c a) \<le> float_val (float_add c b)"
  unfolding float_add_def Let_def
proof (rule round_mono_val)
  show "0 \<le> fst c * 2 ^ nat (snd c - min (snd c) (snd a))
            + fst a * 2 ^ nat (snd a - min (snd c) (snd a))"
    using assms by simp
  show "float_val (fst c * 2 ^ nat (snd c - min (snd c) (snd a))
                   + fst a * 2 ^ nat (snd a - min (snd c) (snd a)), min (snd c) (snd a))
        \<le> float_val (fst c * 2 ^ nat (snd c - min (snd c) (snd b))
                   + fst b * 2 ^ nat (snd b - min (snd c) (snd b)), min (snd c) (snd b))"
    using assms(3) by (simp only: float_add_exact)
qed

lemma float_mul_nonneg: "0 \<le> fst a \<Longrightarrow> 0 \<le> fst b \<Longrightarrow> 0 \<le> fst (float_mul a b)"
  by (simp add: float_mul_def round_fst_nonneg)

lemma float_add_nonneg: "0 \<le> fst a \<Longrightarrow> 0 \<le> fst b \<Longrightarrow> 0 \<le> fst (float_add a b)"
  by (simp add: float_add_def Let_def round_fst_nonneg)

subsection \<open>The error of one rounding\<close>

text \<open>
  A rounded mantissa is a multiple of the dropped power of two and at most half of it away
  from the exact one.
\<close>

lemma dvd_rounded:
  assumes "0 \<le> m"
  shows "2 ^ nat (bitlen m - 53) dvd rounded_int m"
  by (simp add: rounded_int_nonneg [OF assms])

lemma rounded_int_error:
  assumes "0 \<le> m"
  shows "2 * \<bar>rounded_int m - m\<bar> \<le> 2 ^ nat (bitlen m - 53)"
proof -
  define k where "k = nat (bitlen m - 53)"
  define K :: int where "K = 2 ^ k"
  define q where "q = m div K"
  define r where "r = m mod K"
  have K: "0 < K" by (simp add: K_def)
  have m: "m = q * K + r" and r: "0 \<le> r" "r < K"
    using int_divmod [OF K, of m] by (simp_all add: q_def r_def)
  have R: "round_half_even m k = (if K < 2 * r \<or> (2 * r = K \<and> odd q) then q + 1 else q)"
    by (simp add: round_half_even_def Let_def K_def q_def r_def)
  have ri: "rounded_int m = round_half_even m k * K"
    by (simp add: rounded_int_nonneg [OF assms] k_def K_def)
  have goal: "2 * \<bar>rounded_int m - m\<bar> \<le> K"
  proof (cases "K < 2 * r \<or> (2 * r = K \<and> odd q)")
    case True
    then have "round_half_even m k = q + 1" unfolding R by (simp only: if_True)
    then have "rounded_int m = q * K + K" by (simp add: ri distrib_right)
    then have d: "rounded_int m - m = K - r" using m by simp
    from True r have "K \<le> 2 * r" by auto
    with r show ?thesis unfolding d by simp
  next
    case False
    then have "round_half_even m k = q" unfolding R by (simp only: if_False)
    then have "rounded_int m = q * K" by (simp add: ri)
    then have d: "rounded_int m - m = - r" using m by simp
    from False have "2 * r \<le> K" by auto
    with r show ?thesis unfolding d by simp
  qed
  then show ?thesis by (simp add: K_def k_def)
qed

lemma rounded_int_window:
  assumes "2 ^ (n + 52) \<le> m" "m < 2 ^ (n + 54)"
  shows "(2 * \<bar>rounded_int m - m\<bar> \<le> 2 ^ n \<and> 2 ^ n dvd rounded_int m)
       \<or> (2 * \<bar>rounded_int m - m\<bar> \<le> 2 * 2 ^ n \<and> 2 * 2 ^ n dvd rounded_int m)"
proof -
  have "(0::int) \<le> 2 ^ (n + 52)" by simp
  from this assms(1) have m0: "0 \<le> m" by (rule order_trans)
  have s: "n + 53 = Suc (n + 52)" "n + 54 = Suc (n + 53)" by simp_all
  show ?thesis
  proof (cases "m < 2 ^ (n + 53)")
    case True
    then have "m < 2 ^ Suc (n + 52)" by (simp only: s)
    with assms(1) have "bitlen m = int (n + 52) + 1" by (rule bitlen_between)
    then have k: "nat (bitlen m - 53) = n" by simp
    show ?thesis using rounded_int_error [OF m0] dvd_rounded [OF m0] unfolding k by simp
  next
    case False
    then have l: "2 ^ (n + 53) \<le> m" by simp
    from assms(2) have "m < 2 ^ Suc (n + 53)" by (simp only: s)
    with l have "bitlen m = int (n + 53) + 1" by (rule bitlen_between)
    then have k: "nat (bitlen m - 53) = Suc n" by simp
    show ?thesis using rounded_int_error [OF m0] dvd_rounded [OF m0] unfolding k by simp
  qed
qed

lemma dvd_bound_5:
  fixes K D :: int
  assumes "0 < K" "K dvd D" "2 * D \<le> 5 * K"
  shows "D \<le> 2 * K"
proof -
  from assms(2) obtain j where D: "D = K * j" ..
  have "K * (2 * j) \<le> K * 5" using assms(3) by (simp add: D)
  then have "2 * j \<le> 5" using assms(1) by (simp only: mult_le_cancel_left_pos)
  then have "j \<le> 2" by simp
  then have "K * j \<le> K * 2" using assms(1) by (simp only: mult_le_cancel_left_pos)
  then show ?thesis by (simp add: D)
qed

lemma dvd_bound_6:
  fixes K D :: int
  assumes "0 < K" "2 * K dvd D" "2 * D \<le> 6 * K"
  shows "D \<le> 2 * K"
proof -
  from assms(2) obtain j where D: "D = 2 * K * j" ..
  have "K * (4 * j) \<le> K * 6" using assms(3) by (simp add: D)
  then have "4 * j \<le> 6" using assms(1) by (simp only: mult_le_cancel_left_pos)
  then have "j \<le> 1" by simp
  then have "K * j \<le> K * 1" using assms(1) by (simp only: mult_le_cancel_left_pos)
  then show ?thesis by (simp add: D)
qed

lemma rounded_sum_bound:
  fixes K T N1 N2 R1 R2 :: int
  assumes K: "0 < K" and T: "N1 + 2 * N2 = T" and KT: "2 * K dvd T"
    and w1: "(2 * \<bar>R1 - N1\<bar> \<le> K \<and> K dvd R1) \<or> (2 * \<bar>R1 - N1\<bar> \<le> 2 * K \<and> 2 * K dvd R1)"
    and w2: "(2 * \<bar>R2 - N2\<bar> \<le> K \<and> K dvd R2) \<or> (2 * \<bar>R2 - N2\<bar> \<le> 2 * K \<and> 2 * K dvd R2)"
  shows "R1 + 2 * R2 \<le> T + 2 * K"
proof -
  define D where "D = R1 + 2 * R2 - T"
  have KT': "K dvd T" using KT by (rule dvd_mult_right)
  have D: "D = (R1 - N1) + 2 * (R2 - N2)" using T by (simp add: D_def)
  have "D \<le> 2 * K"
  proof -
    consider
        (aa) "2 * \<bar>R1 - N1\<bar> \<le> K" "2 * \<bar>R2 - N2\<bar> \<le> K"
      | (ab) "2 * \<bar>R1 - N1\<bar> \<le> K" "K dvd R1" "2 * \<bar>R2 - N2\<bar> \<le> 2 * K" "2 * K dvd R2"
      | (ba) "2 * \<bar>R1 - N1\<bar> \<le> 2 * K" "2 * \<bar>R2 - N2\<bar> \<le> K"
      | (bb) "2 * \<bar>R1 - N1\<bar> \<le> 2 * K" "2 * K dvd R1" "2 * \<bar>R2 - N2\<bar> \<le> 2 * K" "2 * K dvd R2"
      using w1 w2 by blast
    then show ?thesis
    proof cases
      case aa
      have "2 * (R1 - N1) \<le> K" "2 * (R2 - N2) \<le> K" using aa by arith+
      with K show ?thesis unfolding D by arith
    next
      case ab
      have "K dvd R2" using ab(4) by (rule dvd_mult_right)
      then have "K dvd D" unfolding D_def using ab(2) KT' by (intro dvd_diff dvd_add dvd_mult) 
      moreover have "2 * (R1 - N1) \<le> K" "2 * (R2 - N2) \<le> 2 * K" using ab(1,3) by arith+
      then have "2 * D \<le> 5 * K" unfolding D by arith
      ultimately show ?thesis using K by (intro dvd_bound_5)
    next
      case ba
      have "2 * (R1 - N1) \<le> 2 * K" "2 * (R2 - N2) \<le> K" using ba by arith+
      with K show ?thesis unfolding D by arith
    next
      case bb
      have "2 * K dvd 2 * R2" using bb(4) by (rule dvd_mult)
      then have "2 * K dvd D" unfolding D_def using bb(2) KT by (intro dvd_diff dvd_add)
      moreover have "2 * (R1 - N1) \<le> 2 * K" "2 * (R2 - N2) \<le> 2 * K" using bb(1,3) by arith+
      then have "2 * D \<le> 6 * K" unfolding D by arith
      ultimately show ?thesis using K by (intro dvd_bound_6)
    qed
  qed
  then show ?thesis by (simp add: D_def)
qed

lemma rounded_int_tie:
  assumes "2 ^ 52 \<le> y" "y < 2 ^ 53" "even y"
  shows "rounded_int (2 * y + 1) = 2 * y"
proof -
  have "2 ^ 53 \<le> 2 * y + 1" "2 * y + 1 < 2 ^ Suc 53" using assms by simp_all
  then have "bitlen (2 * y + 1) = int 53 + 1" by (rule bitlen_between)
  then have k: "nat (bitlen (2 * y + 1) - 53) = 1" by simp
  have "0 \<le> 2 * y + 1" using assms by simp
  then have "rounded_int (2 * y + 1) = round_half_even (2 * y + 1) 1 * 2 ^ 1"
    using rounded_int_nonneg [of "2 * y + 1"] unfolding k by simp
  moreover have "round_half_even (2 * y + 1) 1 = y"
    using assms(3) by (simp add: round_half_even_def Let_def)
  ultimately show ?thesis by simp
qed

subsection \<open>One update at the target\<close>

text \<open>
  \<open>0.4\<close> is \<open>A * 2 ^ -54\<close> and \<open>1 - 0.4\<close> is \<open>B * 2 ^ -53\<close> with \<open>A + 2 * B = 2 ^ 54\<close>: the
  exact sum of the two products of a coordinate \<open>x\<close> is \<open>x\<close> itself. Each product is rounded,
  by at most half a unit of its last place, and both roundings are multiples of \<open>2 ^ k\<close>
  (over \<open>2 ^ -54\<close>) for \<open>2 ^ k \<le> x < 2 ^ (k + 1)\<close>; so their sum exceeds \<open>x\<close> by at most
  \<open>2 ^ (k + 1)\<close>, which is half a unit in the last place of \<open>x\<close>, a tie that rounds back to
  the even neighbour \<open>x\<close>. Smoothing a pointer that has reached \<open>x\<close> does not overshoot.
\<close>

lemma float_val_int: "float_val (x, 0) = real_of_int x"
  by (simp add: float_val_def)

lemma float_val_54: "float_val (m, - 54) = real_of_int m / 2 ^ 54"
  by (simp add: float_val_def powr_minus_divide)

lemma float_val_53: "float_val (m, - 53) = real_of_int (2 * m) / 2 ^ 54"
  by (simp add: float_val_def powr_minus_divide)

lemma step_at_target:
  assumes "0 < x" "x < 2 ^ 48"
  shows "float_val (float_add (float_mul float_0_4 (x, 0))
                              (float_mul (5404319552844595, - 53) (x, 0))) \<le> real_of_int x"
proof -
  define k where "k = nat (bitlen x - 1)"
  define K :: int where "K = 2 ^ k"
  define N1 where "N1 = 7205759403792794 * x"
  define N2 where "N2 = 5404319552844595 * x"
  define R1 where "R1 = rounded_int N1"
  define R2 where "R2 = rounded_int N2"
  define P where "P = round_to_double N1 (- 54)"
  define Q where "Q = round_to_double N2 (- 53)"
  have K0: "0 < K" by (simp add: K_def)
  have "nat (bitlen x) = Suc k"
    using bitlen_pow_bounds(3) [OF assms(1)] by (simp add: k_def)
  with bitlen_pow_bounds(1,2) [OF assms(1)] have kx: "K \<le> x" "x < 2 * K"
    by (simp_all add: k_def K_def)
  have "(2::int) ^ k < 2 ^ 48" using kx(1) assms(2) by (simp add: K_def)
  then have k48: "k < 48" by (simp only: power_strict_increasing_iff) 
  have p52: "(2::int) ^ (k + 52) = K * 4503599627370496"
    and p54: "(2::int) ^ (k + 54) = K * 18014398509481984"
    by (simp_all add: K_def power_add)
  have N1b: "2 ^ (k + 52) \<le> N1" "N1 < 2 ^ (k + 54)"
    unfolding p52 p54 N1_def using kx K0 by linarith+
  have N2b: "2 ^ (k + 52) \<le> N2" "N2 < 2 ^ (k + 54)"
    unfolding p52 p54 N2_def using kx K0 by linarith+
  have N0: "0 \<le> N1" "0 \<le> N2" using assms(1) by (simp_all add: N1_def N2_def)
  have w1: "(2 * \<bar>R1 - N1\<bar> \<le> K \<and> K dvd R1) \<or> (2 * \<bar>R1 - N1\<bar> \<le> 2 * K \<and> 2 * K dvd R1)"
    unfolding R1_def K_def by (rule rounded_int_window [OF N1b])
  have w2: "(2 * \<bar>R2 - N2\<bar> \<le> K \<and> K dvd R2) \<or> (2 * \<bar>R2 - N2\<bar> \<le> 2 * K \<and> 2 * K dvd R2)"
    unfolding R2_def K_def by (rule rounded_int_window [OF N2b])
  have T: "N1 + 2 * N2 = x * 2 ^ 54" by (simp add: N1_def N2_def)
  define j where "j = 51 - k"
  have kj: "Suc k + Suc (Suc j) = 54" "k + Suc j = 52" using k48 by (simp_all add: j_def)
  have e54: "(2::int) ^ 54 = 2 ^ Suc k * 2 ^ Suc (Suc j)"
    by (simp only: power_add [symmetric] kj)
  have e52: "(2::int) ^ 52 = 2 ^ k * 2 ^ Suc j"
    by (simp only: power_add [symmetric] kj)
  have KT: "2 * K dvd x * 2 ^ 54"
    unfolding e54 by (simp add: K_def)
  have bound: "R1 + 2 * R2 \<le> x * 2 ^ 54 + 2 * K"
    by (rule rounded_sum_bound [OF K0 T KT w1 w2])
  define y where "y = x * 2 ^ Suc j"
  have y1: "2 ^ 52 \<le> y"
    unfolding e52 y_def using kx(1) by (simp add: K_def)
  have "y < (2 * K) * 2 ^ Suc j"
    unfolding y_def using kx(2) by (intro mult_strict_right_mono) simp_all
  also have "\<dots> = 2 * 2 ^ 52" unfolding e52 by (simp add: K_def)
  finally have y2: "y < 2 ^ 53" by simp
  have y3: "even y" by (simp add: y_def)
  have "x * 2 ^ 54 = 2 * y * 2 ^ Suc k" unfolding e54 y_def by simp
  then have split: "x * 2 ^ 54 + 2 * K = (2 * y + 1) * 2 ^ Suc k"
    by (simp add: K_def distrib_right)
  have "0 \<le> 2 * y + 1" using y1 by simp
  then have "rounded_int ((2 * y + 1) * 2 ^ Suc k) = rounded_int (2 * y + 1) * 2 ^ Suc k"
    by (rule rounded_int_shift)
  also have "\<dots> = 2 * y * 2 ^ Suc k"
    by (simp only: rounded_int_tie [OF y1 y2 y3])
  also have "\<dots> = x * 2 ^ 54" unfolding e54 y_def by simp
  finally have top: "rounded_int (x * 2 ^ 54 + 2 * K) = x * 2 ^ 54"
    by (simp only: split)
  have PQ: "float_mul float_0_4 (x, 0) = P" "float_mul (5404319552844595, - 53) (x, 0) = Q"
    by (simp_all add: float_mul_def float_0_4_def P_def Q_def N1_def N2_def)
  have vP: "float_val P = real_of_int R1 / 2 ^ 54"
    by (simp add: P_def R1_def float_val_round powr_minus_divide)
  have vQ: "float_val Q = real_of_int (2 * R2) / 2 ^ 54"
    by (simp add: Q_def R2_def float_val_round powr_minus_divide)
  define e where "e = min (snd P) (snd Q)"
  define S where "S = fst P * 2 ^ nat (snd P - e) + fst Q * 2 ^ nat (snd Q - e)"
  have add: "float_add P Q = round_to_double S e"
    by (simp add: float_add_def Let_def S_def e_def)
  have "0 \<le> fst P" "0 \<le> fst Q"
    unfolding P_def Q_def using N0 by (simp_all add: round_fst_nonneg)
  then have S0: "0 \<le> S" by (simp add: S_def)
  have "float_val (S, e) = float_val P + float_val Q"
    unfolding S_def e_def by (rule float_add_exact)
  also have "\<dots> = real_of_int (R1 + 2 * R2) / 2 ^ 54"
    unfolding vP vQ by (simp add: add_divide_distrib)
  also have "\<dots> \<le> real_of_int (x * 2 ^ 54 + 2 * K) / 2 ^ 54"
    using bound by (intro divide_right_mono) simp_all
  also have "\<dots> = float_val (x * 2 ^ 54 + 2 * K, - 54)"
    by (simp only: float_val_54)
  finally have "float_val (round_to_double S e)
                  \<le> float_val (round_to_double (x * 2 ^ 54 + 2 * K) (- 54))"
    using S0 by (intro round_mono_val)
  also have "\<dots> = real_of_int (x * 2 ^ 54) / 2 ^ 54"
    using top by (simp add: float_val_round powr_minus_divide)
  also have "\<dots> = real_of_int x" by simp
  finally show ?thesis unfolding PQ add .
qed

lemma step_at_target0:
  assumes "0 \<le> x" "x < 2 ^ 48"
  shows "float_val (float_add (float_mul float_0_4 (x, 0))
                              (float_mul (5404319552844595, - 53) (x, 0))) \<le> real_of_int x"
proof (cases "x = 0")
  case True
  have "float_add (float_mul float_0_4 (0, 0)) (float_mul (5404319552844595, - 53) (0, 0)) = (0, - 54)"
    by code_simp
  then show ?thesis using True by (simp add: float_val_def)
next
  case False
  with assms(1) have "0 < x" by simp
  then show ?thesis using assms(2) by (rule step_at_target)
qed

subsection \<open>The run for a raw coordinate that does not change\<close>

lemma one_minus_alpha: "float_sub float_1_0 alpha = (5404319552844595, - 53)"
  by code_simp

lemma smooth_step_ema:
  assumes "0 \<le> x" "x < 2 ^ 48"
  shows "smooth_step s x = Inr (ema s x)"
  using one_minus_alpha
  by (simp add: smooth_step_def float_of_int_exact [OF assms] ema_def alpha_def)

lemma ema_nonneg:
  assumes "0 \<le> x" "0 \<le> fst s"
  shows "0 \<le> fst (ema s x)"
  unfolding ema_def using assms
  by (intro float_add_nonneg float_mul_nonneg) (simp_all add: float_0_4_def)

lemma ema_mono:
  assumes "0 \<le> x" "0 \<le> fst s" "float_val s \<le> float_val t"
  shows "float_val (ema s x) \<le> float_val (ema t x)"
  unfolding ema_def using assms
  by (intro float_add_mono float_mul_mono float_mul_nonneg) (simp_all add: float_0_4_def)

lemma ema_below:
  assumes "0 \<le> x" "x < 2 ^ 48" "0 \<le> fst s" "float_val s \<le> real_of_int x"
  shows "float_val (ema s x) \<le> real_of_int x"
proof -
  have "float_val s \<le> float_val (x, 0)" using assms(4) by (simp only: float_val_int)
  with assms(1,3) have "float_val (ema s x) \<le> float_val (ema (x, 0) x)" by (rule ema_mono)
  also have "\<dots> \<le> real_of_int x" unfolding ema_def using assms(1,2) by (rule step_at_target0)
  finally show ?thesis .
qed

text \<open>The two coordinates do not meet: each is the run of its own raw values.\<close>

lemma smooth_frames_coords:
  "smooth_frames (sx, sy) ps = Inr (a, b)
     \<longleftrightarrow> smooth_coord sx (map fst ps) = Inr a \<and> smooth_coord sy (map snd ps) = Inr b"
proof (induction ps arbitrary: sx sy)
  case Nil
  show ?case by auto
next
  case (Cons p ps)
  obtain x y where p: "p = (x, y)" by (cases p)
  show ?case
  proof (cases "smooth_step sx x")
    case (Inl e)
    then show ?thesis by (simp add: p smooth_xy_def)
  next
    case sx1: (Inr sx1)
    show ?thesis
    proof (cases "smooth_step sy y")
      case (Inl e)
      then show ?thesis by (simp add: p smooth_xy_def sx1)
    next
      case (Inr sy1)
      then show ?thesis using Cons.IH [of sx1 sy1] by (simp add: p smooth_xy_def sx1)
    qed
  qed
qed

lemma smooth_coord_snoc:
  "smooth_coord s (xs @ [x]) =
     (case smooth_coord s xs of Inl e \<Rightarrow> Inl e | Inr t \<Rightarrow> smooth_step t x)"
  by (induction xs arbitrary: s) (simp_all split: sum.splits)

lemma smooth_coord_Suc:
  "smooth_coord s (replicate (Suc n) x) =
     (case smooth_coord s (replicate n x) of Inl e \<Rightarrow> Inl e | Inr t \<Rightarrow> smooth_step t x)"
proof -
  have "replicate (Suc n) x = replicate n x @ [x]" by (simp add: replicate_append_same)
  then show ?thesis by (simp only: smooth_coord_snoc)
qed

lemma smooth_coord_rises:
  assumes "0 \<le> x" "x < 2 ^ 48"
  shows "\<exists>s t. smooth_coord (0, 0) (replicate n x) = Inr s
           \<and> smooth_coord (0, 0) (replicate (Suc n) x) = Inr t
           \<and> 0 \<le> fst s \<and> 0 \<le> fst t
           \<and> float_val s \<le> float_val t \<and> float_val t \<le> real_of_int x"
proof (induction n)
  case 0
  have a: "0 \<le> fst (ema (0, 0) x)" using assms(1) by (intro ema_nonneg) simp_all
  then have b: "float_val (0, 0) \<le> float_val (ema (0, 0) x)"
    by (simp add: float_val_nonneg float_val_int)
  have c: "float_val (ema (0, 0) x) \<le> real_of_int x"
    using assms by (intro ema_below) (simp_all add: float_val_int)
  show ?case using a b c by (simp add: smooth_step_ema [OF assms])
next
  case (Suc n)
  then obtain s t where st: "smooth_coord (0, 0) (replicate n x) = Inr s"
    "smooth_coord (0, 0) (replicate (Suc n) x) = Inr t"
    "0 \<le> fst s" "0 \<le> fst t" "float_val s \<le> float_val t" "float_val t \<le> real_of_int x"
    by blast
  have "smooth_step s x = Inr t" using st(2) unfolding smooth_coord_Suc st(1) by simp
  then have t: "t = ema s x" by (simp add: smooth_step_ema [OF assms])
  have a: "0 \<le> fst (ema t x)" using assms(1) st(4) by (rule ema_nonneg)
  have b: "float_val t \<le> float_val (ema t x)"
    using ema_mono [OF assms(1) st(3) st(5)] by (simp only: t [symmetric])
  have c: "float_val (ema t x) \<le> real_of_int x"
    using assms st(4) st(6) by (rule ema_below)
  have "smooth_coord (0, 0) (replicate (Suc (Suc n)) x) = Inr (ema t x)"
    unfolding smooth_coord_Suc [of _ "Suc n"] st(2) by (simp add: smooth_step_ema [OF assms])
  with st(2,4) a b c show ?case by blast
qed

text \<open>A negative coordinate gives the mirrored run.\<close>

lemma round_to_double_minus:
  "round_to_double (- m) e = (- fst (round_to_double m e), snd (round_to_double m e))"
  by (simp add: round_to_double_def Let_def)

lemma float_mul_minus:
  "float_mul a (- fst b, snd b) = (- fst (float_mul a b), snd (float_mul a b))"
  by (simp add: float_mul_def round_to_double_minus)

lemma float_add_minus:
  "float_add (- fst a, snd a) (- fst b, snd b) = (- fst (float_add a b), snd (float_add a b))"
proof -
  define e where "e = min (snd a) (snd b)"
  define S where "S = fst a * 2 ^ nat (snd a - e) + fst b * 2 ^ nat (snd b - e)"
  have ab: "float_add a b = round_to_double S e"
    by (simp add: float_add_def Let_def e_def S_def)
  have "float_add (- fst a, snd a) (- fst b, snd b) = round_to_double (- S) e"
    by (simp add: float_add_def Let_def e_def S_def)
  also have "\<dots> = (- fst (round_to_double S e), snd (round_to_double S e))"
    by (rule round_to_double_minus)
  finally show ?thesis by (simp only: ab)
qed

lemma ema_minus: "ema (- fst s, snd s) (- x) = (- fst (ema s x), snd (ema s x))"
proof -
  have "float_mul float_0_4 (- x, 0) = (- fst (float_mul float_0_4 (x, 0)), snd (float_mul float_0_4 (x, 0)))"
    using float_mul_minus [of float_0_4 "(x, 0)"] by simp
  then show ?thesis
    by (simp add: ema_def float_mul_minus float_add_minus)
qed

lemma float_val_minus: "float_val (- fst s, snd s) = - float_val s"
  by (simp add: float_val_def)

lemma smooth_step_minus:
  assumes "0 \<le> x" "x < 2 ^ 48"
  shows "smooth_step (- fst s, snd s) (- x) = Inr (- fst (ema s x), snd (ema s x))"
proof -
  have "bitlen x \<le> 48" using assms by (simp add: bitlen_le_iff_power)
  then have "float_of_int (- x) = Inr (- x, 0)"
    using assms by (simp add: float_of_int_def round_to_double_def float_overflows_def Let_def)
  then have "smooth_step (- fst s, snd s) (- x) = Inr (ema (- fst s, snd s) (- x))"
    using one_minus_alpha by (simp add: smooth_step_def ema_def alpha_def)
  then show ?thesis by (simp only: ema_minus)
qed

lemma smooth_coord_minus:
  assumes "0 \<le> x" "x < 2 ^ 48"
  shows "smooth_coord (0, 0) (replicate n x) = Inr s
           \<Longrightarrow> smooth_coord (0, 0) (replicate n (- x)) = Inr (- fst s, snd s)"
proof (induction n arbitrary: s)
  case 0
  then show ?case by auto
next
  case (Suc n)
  from Suc.prems obtain s0 where s0: "smooth_coord (0, 0) (replicate n x) = Inr s0"
    and step: "smooth_step s0 x = Inr s"
    unfolding smooth_coord_Suc by (auto split: sum.splits)
  have s: "s = ema s0 x" using step by (simp add: smooth_step_ema [OF assms])
  show ?case
    unfolding smooth_coord_Suc Suc.IH [OF s0]
    by (simp add: smooth_step_minus [OF assms] s)
qed

lemma smooth_coord_approaches:
  assumes "\<bar>x\<bar> < 2 ^ 48"
  shows "\<exists>s t. smooth_coord (0, 0) (replicate n x) = Inr s
           \<and> smooth_coord (0, 0) (replicate (Suc n) x) = Inr t
           \<and> (float_val s \<le> float_val t \<and> float_val t \<le> real_of_int x
              \<or> real_of_int x \<le> float_val t \<and> float_val t \<le> float_val s)"
proof (cases "0 \<le> x")
  case True
  then have "x < 2 ^ 48" using assms by simp
  from smooth_coord_rises [OF True this, of n] show ?thesis by blast
next
  case False
  then have x: "0 \<le> - x" "- x < 2 ^ 48" using assms by simp_all
  from smooth_coord_rises [OF x, of n] obtain s t where
    st: "smooth_coord (0, 0) (replicate n (- x)) = Inr s"
        "smooth_coord (0, 0) (replicate (Suc n) (- x)) = Inr t"
        "float_val s \<le> float_val t" "float_val t \<le> real_of_int (- x)"
    by blast
  have a: "smooth_coord (0, 0) (replicate n x) = Inr (- fst s, snd s)"
    using smooth_coord_minus [OF x st(1)] by simp
  have b: "smooth_coord (0, 0) (replicate (Suc n) x) = Inr (- fst t, snd t)"
    using smooth_coord_minus [OF x st(2)] by simp
  have "real_of_int x \<le> float_val (- fst t, snd t)"
       "float_val (- fst t, snd t) \<le> float_val (- fst s, snd s)"
    using st(3,4) by (simp_all add: float_val_minus)
  with a b show ?thesis by blast
qed

text \<open>
  C7. The smoother updates \<open>smooth_x\<close> from \<open>x\<close> and \<open>smooth_y\<close> from \<open>y\<close> by
  \<open>alpha * raw + (1 - alpha) * smoothed\<close> with \<open>alpha = 0.4\<close>, from \<open>(0, 0)\<close>
  (\<open>smooth_step\<close>, \<open>smooth_xy\<close>, \<open>smooth_init\<close>). In binary64 arithmetic, for a raw point
  \<open>(x, y)\<close> held over the frames, both coordinates below \<open>2 ^ 48\<close> in magnitude: no frame
  raises, and in every frame each smoothed coordinate is at least as close to its raw
  value as in the frame before (it moves towards the raw value and never beyond it, see
  \<open>smooth_coord_approaches\<close>). After 50 frames of raw \<open>(500, 300)\<close> the smoothed point is
  \<open>(499.99999999595855, 299.9999999975751)\<close>, within 1 unit of \<open>(500, 300)\<close>.
\<close>

theorem smoothing_approaches_raw:
  assumes "\<bar>x\<bar> < 2 ^ 48" "\<bar>y\<bar> < 2 ^ 48"
  shows "(\<exists>sx sy tx ty.
            smooth_frames smooth_init (replicate n (x, y)) = Inr (sx, sy) \<and>
            smooth_frames smooth_init (replicate (Suc n) (x, y)) = Inr (tx, ty) \<and>
            \<bar>real_of_int x - float_val tx\<bar> \<le> \<bar>real_of_int x - float_val sx\<bar> \<and>
            \<bar>real_of_int y - float_val ty\<bar> \<le> \<bar>real_of_int y - float_val sy\<bar>) \<and>
         smooth_frames smooth_init (replicate 50 (500, 300))
           = Inr ((8796093022136902, - 44), (5277655813282141, - 44)) \<and>
         \<bar>500 - float_val (8796093022136902, - 44)\<bar> < 1 \<and>
         \<bar>300 - float_val (5277655813282141, - 44)\<bar> < 1"
proof (intro conjI)
  from smooth_coord_approaches [OF assms(1), of n] obtain sx tx where
    x: "smooth_coord (0, 0) (replicate n x) = Inr sx"
       "smooth_coord (0, 0) (replicate (Suc n) x) = Inr tx"
       "float_val sx \<le> float_val tx \<and> float_val tx \<le> real_of_int x
          \<or> real_of_int x \<le> float_val tx \<and> float_val tx \<le> float_val sx"
    by blast
  from smooth_coord_approaches [OF assms(2), of n] obtain sy ty where
    y: "smooth_coord (0, 0) (replicate n y) = Inr sy"
       "smooth_coord (0, 0) (replicate (Suc n) y) = Inr ty"
       "float_val sy \<le> float_val ty \<and> float_val ty \<le> real_of_int y
          \<or> real_of_int y \<le> float_val ty \<and> float_val ty \<le> float_val sy"
    by blast
  have m: "map fst (replicate k (x, y)) = replicate k x"
          "map snd (replicate k (x, y)) = replicate k y" for k
    by simp_all
  have a: "smooth_frames smooth_init (replicate n (x, y)) = Inr (sx, sy)"
    unfolding smooth_init_def smooth_frames_coords m using x(1) y(1) by simp
  have b: "smooth_frames smooth_init (replicate (Suc n) (x, y)) = Inr (tx, ty)"
    unfolding smooth_init_def smooth_frames_coords m using x(2) y(2) by simp
  have c: "\<bar>real_of_int x - float_val tx\<bar> \<le> \<bar>real_of_int x - float_val sx\<bar>"
    using x(3) by linarith
  have d: "\<bar>real_of_int y - float_val ty\<bar> \<le> \<bar>real_of_int y - float_val sy\<bar>"
    using y(3) by linarith
  from a b c d show "\<exists>sx sy tx ty.
            smooth_frames smooth_init (replicate n (x, y)) = Inr (sx, sy) \<and>
            smooth_frames smooth_init (replicate (Suc n) (x, y)) = Inr (tx, ty) \<and>
            \<bar>real_of_int x - float_val tx\<bar> \<le> \<bar>real_of_int x - float_val sx\<bar> \<and>
            \<bar>real_of_int y - float_val ty\<bar> \<le> \<bar>real_of_int y - float_val sy\<bar>"
    by blast
next
  show "smooth_frames smooth_init (replicate 50 (500, 300))
           = Inr ((8796093022136902, - 44), (5277655813282141, - 44))"
    by code_simp
next
  show "\<bar>500 - float_val (8796093022136902, - 44)\<bar> < 1"
    by (simp add: float_val_def powr_minus_divide)
next
  show "\<bar>300 - float_val (5277655813282141, - 44)\<bar> < 1"
    by (simp add: float_val_def powr_minus_divide)
qed

theorem smoothing_approaches_raw_witness:
  "\<bar>640 :: int\<bar> < 2 ^ 48 \<and> \<bar>- 3 :: int\<bar> < 2 ^ 48 \<and>
   (\<exists>sx sy tx ty.
      smooth_frames smooth_init (replicate 2 (640, - 3)) = Inr (sx, sy) \<and>
      smooth_frames smooth_init (replicate (Suc 2) (640, - 3)) = Inr (tx, ty) \<and>
      \<bar>real_of_int 640 - float_val tx\<bar> \<le> \<bar>real_of_int 640 - float_val sx\<bar> \<and>
      \<bar>real_of_int (- 3) - float_val ty\<bar> \<le> \<bar>real_of_int (- 3) - float_val sy\<bar>)"
  using smoothing_approaches_raw [of 640 "- 3" 2] by simp

text \<open>
  The first frames of that run are the floats Python prints: \<open>(200.0, 120.0)\<close>,
  \<open>(320.0, 192.0)\<close>, \<open>(392.0, 235.2)\<close>.
\<close>

lemma smooth_frames_first_frames:
  "smooth_frames smooth_init (replicate 1 (500, 300))
     = Inr ((7036874417766400, - 45), (8444249301319680, - 46)) \<and>
   smooth_frames smooth_init (replicate 2 (500, 300))
     = Inr ((5629499534213120, - 44), (6755399441055744, - 45)) \<and>
   smooth_frames smooth_init (replicate 3 (500, 300))
     = Inr ((6896136929411072, - 44), (8275364315293286, - 45)) \<and>
   float_val (7036874417766400, - 45) = 200 \<and> float_val (8444249301319680, - 46) = 120 \<and>
   float_val (5629499534213120, - 44) = 320 \<and> float_val (6755399441055744, - 45) = 192 \<and>
   float_val (6896136929411072, - 44) = 392"
proof -
  have "smooth_frames smooth_init (replicate 1 (500, 300))
          = Inr ((7036874417766400, - 45), (8444249301319680, - 46))"
       "smooth_frames smooth_init (replicate 2 (500, 300))
          = Inr ((5629499534213120, - 44), (6755399441055744, - 45))"
       "smooth_frames smooth_init (replicate 3 (500, 300))
          = Inr ((6896136929411072, - 44), (8275364315293286, - 45))"
    by code_simp+
  then show ?thesis by (simp add: float_val_def powr_minus_divide)
qed

text \<open>
  The approach is not strict for ever: from the 72nd frame on the smoothed \<open>x\<close> of raw 500
  stays at \<open>499.99999999999994\<close>, one unit in the last place below 500, and the point
  handed to the painter, which is truncated by \<open>int(...)\<close>, is \<open>(499, 299)\<close> after 50 frames
  and has \<open>x = 499\<close> for as long as the raw point rests.
\<close>

lemma smoothed_point_rests_below:
  "smoothed_point ((8796093022136902, - 44), (5277655813282141, - 44)) = (499, 299) \<and>
   smooth_coord (0, 0) (replicate 72 500) = Inr (8796093022207999, - 44) \<and>
   smooth_step (8796093022207999, - 44) 500 = Inr (8796093022207999, - 44) \<and>
   int_of_float (8796093022207999, - 44) = 499"
  by code_simp
end
